theory Spec2Isabelle
  imports Complex_Main "HOL-Library.Sublist"
begin

section \<open>Strings\<close>

text \<open>
  A JavaScript string is a sequence of 16-bit code units. The model uses \<open>string\<close>
  (\<open>char list\<close>) and reads each \<open>char\<close> as the code unit of the same number, so it
  covers the strings whose code units are below 256 (ASCII and Latin-1; \<open>CHR 0xE9\<close>
  is the letter e with acute accent). The character classes below are the ECMAScript
  ones restricted to that range.
\<close>

definition code_unit :: "char \<Rightarrow> nat" where
  "code_unit c = of_char c"

text \<open>\<open>\d\<close>: the ASCII digits.\<close>

definition is_digit :: "char \<Rightarrow> bool" where
  "is_digit c = (48 \<le> code_unit c \<and> code_unit c \<le> 57)"

text \<open>\<open>\w\<close>, which decides \<open>\b\<close>: ASCII letters, digits and the underscore.\<close>

definition is_word :: "char \<Rightarrow> bool" where
  "is_word c = (let n = code_unit c in
     (48 \<le> n \<and> n \<le> 57) \<or> (65 \<le> n \<and> n \<le> 90) \<or> (97 \<le> n \<and> n \<le> 122) \<or> n = 95)"

text \<open>\<open>\s\<close> and the characters \<open>trim\<close> strips: TAB, LF, VT, FF, CR, space, NBSP.\<close>

definition is_space :: "char \<Rightarrow> bool" where
  "is_space c = (let n = code_unit c in (9 \<le> n \<and> n \<le> 13) \<or> n = 32 \<or> n = 160)"

text \<open>\<open>\p{L}\<close> below 256.\<close>

definition is_letter :: "char \<Rightarrow> bool" where
  "is_letter c = (let n = code_unit c in
     (65 \<le> n \<and> n \<le> 90) \<or> (97 \<le> n \<and> n \<le> 122) \<or> n = 170 \<or> n = 181 \<or> n = 186 \<or>
     (192 \<le> n \<and> n \<le> 214) \<or> (216 \<le> n \<and> n \<le> 246) \<or> 248 \<le> n)"

text \<open>\<open>\p{N}\<close> below 256: the digits, superscript 1 2 3 and the three vulgar fractions.\<close>

definition is_number :: "char \<Rightarrow> bool" where
  "is_number c = (let n = code_unit c in
     (48 \<le> n \<and> n \<le> 57) \<or> n = 178 \<or> n = 179 \<or> n = 185 \<or> (188 \<le> n \<and> n \<le> 190))"

text \<open>
  The canonicalisation a regular expression with flag \<open>i\<close> (and without \<open>u\<close>) applies
  to both the pattern character and the input character: the upper-case form when that
  is a single code unit. Below 256 that moves a-z and the accented lower-case letters
  down by 32; y with diaeresis and the micro sign have upper-case forms above 255 that
  no other character of the range shares, and sharp s has none, so they stay.
\<close>

definition canonicalize :: "char \<Rightarrow> char" where
  "canonicalize c = (let n = code_unit c in
     if (97 \<le> n \<and> n \<le> 122) \<or> (224 \<le> n \<and> n \<le> 254 \<and> n \<noteq> 247)
     then char_of (n - 32) else c)"

text \<open>\<open>String.prototype.toLowerCase\<close> below 256.\<close>

definition lower_char :: "char \<Rightarrow> char" where
  "lower_char c = (let n = code_unit c in
     if (65 \<le> n \<and> n \<le> 90) \<or> (192 \<le> n \<and> n \<le> 222 \<and> n \<noteq> 215)
     then char_of (n + 32) else c)"

definition toLowerCase :: "string \<Rightarrow> string" where
  "toLowerCase s = map lower_char s"

definition trim :: "string \<Rightarrow> string" where
  "trim s = rev (dropWhile is_space (rev (dropWhile is_space s)))"

definition startsWith :: "string \<Rightarrow> string \<Rightarrow> bool" where
  "startsWith s p = (take (length p) s = p)"

text \<open>\<open>h.includes(n)\<close>: \<open>n\<close> starts at some position of \<open>h\<close>.\<close>

fun str_includes :: "string \<Rightarrow> string \<Rightarrow> bool" where
  "str_includes [] n = (n = [])"
| "str_includes (c # h) n = (startsWith (c # h) n \<or> str_includes h n)"

text \<open>JavaScript truthiness of a value that is \<open>null\<close>/\<open>undefined\<close> or a string.\<close>

definition truthy :: "string option \<Rightarrow> bool" where
  "truthy v = (case v of None \<Rightarrow> False | Some s \<Rightarrow> s \<noteq> [])"

section \<open>Regular expressions\<close>

text \<open>
  The regular expressions of \<open>worker.js\<close> are embedded as syntax trees and run by a
  backtracking matcher that follows the ECMAScript matching order: the alternatives of
  \<open>|\<close> left to right, a greedy \<open>*\<close> first with one more iteration and then without,
  an iteration that consumes nothing rejected. \<open>rxm r st\<close> lists the states in which
  \<open>r\<close> can end when started in \<open>st\<close>, the preferred one first. A state holds the
  character before the current position (for \<open>\b\<close> and \<open>^\<close>), the input from the
  position on, and the capture groups bound so far.
\<close>

record mstate =
  prev :: "char option"
  rest :: string
  caps :: "(nat \<times> string) list"

datatype rx = Chr "char \<Rightarrow> bool" | Eps | Seq rx rx | Alt rx rx | Star rx
  | Grp nat rx | WordB | Bol | Eol

definition at_word_boundary :: "char option \<Rightarrow> string \<Rightarrow> bool" where
  "at_word_boundary pv s =
     ((case pv of None \<Rightarrow> False | Some c \<Rightarrow> is_word c) \<noteq>
      (case s of [] \<Rightarrow> False | c # _ \<Rightarrow> is_word c))"

function rxm :: "rx \<Rightarrow> mstate \<Rightarrow> mstate list" where
  "rxm (Chr P) st = (case rest st of [] \<Rightarrow> []
       | c # t \<Rightarrow> if P c then [st\<lparr>prev := Some c, rest := t\<rparr>] else [])"
| "rxm Eps st = [st]"
| "rxm (Seq a b) st = concat (map (rxm b) (rxm a st))"
| "rxm (Alt a b) st = rxm a st @ rxm b st"
| "rxm (Star a) st =
     concat (map (rxm (Star a))
       (filter (\<lambda>st'. length (rest st') < length (rest st)) (rxm a st))) @ [st]"
| "rxm (Grp n a) st =
     map (\<lambda>st'. st'\<lparr>caps :=
            (n, take (length (rest st) - length (rest st')) (rest st)) # caps st'\<rparr>)
       (rxm a st)"
| "rxm WordB st = (if at_word_boundary (prev st) (rest st) then [st] else [])"
| "rxm Bol st = (if prev st = None then [st] else [])"
| "rxm Eol st = (if rest st = [] then [st] else [])"
  by pat_completeness auto
termination
  by (relation "(\<lambda>p. size (fst p)) <*mlex*> measure (\<lambda>p. length (rest (snd p)))")
     (auto simp: mlex_prod_def wf_mlex)

text \<open>Pattern characters, with and without flag \<open>i\<close>, and the derived forms.\<close>

definition lit :: "char \<Rightarrow> rx" where
  "lit c = Chr (\<lambda>d. d = c)"

definition liti :: "char \<Rightarrow> rx" where
  "liti c = Chr (\<lambda>d. canonicalize d = canonicalize c)"

definition rx_word :: "(char \<Rightarrow> rx) \<Rightarrow> string \<Rightarrow> rx" where
  "rx_word f s = foldr (\<lambda>c r. Seq (f c) r) s Eps"

definition rx_seq :: "rx list \<Rightarrow> rx" where
  "rx_seq rs = foldr Seq rs Eps"

definition rx_plus :: "rx \<Rightarrow> rx" where
  "rx_plus r = Seq r (Star r)"

definition rx_opt :: "rx \<Rightarrow> rx" where
  "rx_opt r = Alt r Eps"

primrec rx_rep :: "nat \<Rightarrow> rx \<Rightarrow> rx" where
  "rx_rep 0 r = Eps"
| "rx_rep (Suc n) r = Seq r (rx_rep n r)"

text \<open>
  \<open>re.exec(s)\<close> without flag \<open>g\<close>: the match at the leftmost position that has one,
  and there the preferred one. \<open>group n m\<close> is \<open>m[n]\<close>.
\<close>

fun rx_search :: "rx \<Rightarrow> char option \<Rightarrow> string \<Rightarrow> mstate option" where
  "rx_search r pv [] =
     (case rxm r \<lparr>prev = pv, rest = [], caps = []\<rparr> of [] \<Rightarrow> None | st # _ \<Rightarrow> Some st)"
| "rx_search r pv (c # t) =
     (case rxm r \<lparr>prev = pv, rest = c # t, caps = []\<rparr> of
        [] \<Rightarrow> rx_search r (Some c) t
      | st # _ \<Rightarrow> Some st)"

definition rx_exec :: "rx \<Rightarrow> string \<Rightarrow> mstate option" where
  "rx_exec r s = rx_search r None s"

definition rx_test :: "rx \<Rightarrow> string \<Rightarrow> bool" where
  "rx_test r s = (rx_exec r s \<noteq> None)"

definition group :: "nat \<Rightarrow> mstate \<Rightarrow> string option" where
  "group n m = map_of (caps m) n"

text \<open>
  \<open>s.matchAll(re)\<close> with flag \<open>g\<close>: the successive matches, each search starting where
  the previous match ended, one character further after an empty match.
\<close>

function rx_matchAll :: "rx \<Rightarrow> char option \<Rightarrow> string \<Rightarrow> mstate list" where
  "rx_matchAll r pv s =
     (case rxm r \<lparr>prev = pv, rest = s, caps = []\<rparr> of
        [] \<Rightarrow> (case s of [] \<Rightarrow> [] | c # t \<Rightarrow> rx_matchAll r (Some c) t)
      | st # _ \<Rightarrow>
          if length (rest st) < length s then st # rx_matchAll r (prev st) (rest st)
          else st # (case s of [] \<Rightarrow> [] | c # t \<Rightarrow> rx_matchAll r (Some c) t))"
  by pat_completeness auto
termination
  by (relation "measure (\<lambda>(r, pv, s). length s)") auto

text \<open>
  \<open>s.replace(re, v)\<close> with flag \<open>g\<close> and a replacement \<open>v\<close> without \<open>$\<close> patterns: the
  text between the matches is kept, each match becomes \<open>v\<close>.
\<close>

function rx_replace :: "rx \<Rightarrow> string \<Rightarrow> char option \<Rightarrow> string \<Rightarrow> string" where
  "rx_replace r v pv s =
     (case rxm r \<lparr>prev = pv, rest = s, caps = []\<rparr> of
        [] \<Rightarrow> (case s of [] \<Rightarrow> [] | c # t \<Rightarrow> c # rx_replace r v (Some c) t)
      | st # _ \<Rightarrow>
          if length (rest st) < length s then v @ rx_replace r v (prev st) (rest st)
          else v @ (case s of [] \<Rightarrow> [] | c # t \<Rightarrow> c # rx_replace r v (Some c) t))"
  by pat_completeness auto
termination
  by (relation "measure (\<lambda>(r, v, pv, s). length s)") auto

definition replaceAll :: "rx \<Rightarrow> string \<Rightarrow> string \<Rightarrow> string" where
  "replaceAll r v s = rx_replace r v None s"

text \<open>
  \<open>s.split(re)\<close> for a pattern without capture groups. \<open>piece\<close> is the text since the
  end of the last separator. At each position before the end the pattern is tried; a
  match that ends where the current piece began is skipped, any other match closes
  the piece. The empty string gives no piece when the pattern matches it and itself
  otherwise.
\<close>

function rx_split :: "rx \<Rightarrow> string \<Rightarrow> char option \<Rightarrow> string \<Rightarrow> string list" where
  "rx_split r piece pv s =
     (case s of
        [] \<Rightarrow> [piece]
      | c # t \<Rightarrow>
          (case rxm r \<lparr>prev = pv, rest = s, caps = []\<rparr> of
             [] \<Rightarrow> rx_split r (piece @ [c]) (Some c) t
           | st # _ \<Rightarrow>
               if length (rest st) < length s then piece # rx_split r [] (prev st) (rest st)
               else if piece = [] then rx_split r (piece @ [c]) (Some c) t
               else piece # rx_split r [] pv s))"
  by pat_completeness auto
termination
  by (relation "measures [\<lambda>(r, piece, pv, s). length s, \<lambda>(r, piece, pv, s). length piece]")
     auto

definition str_split :: "rx \<Rightarrow> string \<Rightarrow> string list" where
  "str_split r s =
     (if s = [] then (if rxm r \<lparr>prev = None, rest = [], caps = []\<rparr> = [] then [s] else [])
      else rx_split r [] None s)"

text \<open>The recursive equations are unfolded by hand or by evaluation only.\<close>

declare rxm.simps(5) [simp del] rx_matchAll.simps [simp del] rx_replace.simps [simp del]
  rx_split.simps [simp del]

section \<open>The patterns of \<open>worker.js\<close>\<close>

definition digit :: rx where
  "digit = Chr is_digit"

definition space :: rx where
  "space = Chr is_space"

definition quote :: rx where
  "quote = Chr (\<lambda>c. c = CHR 0x22 \<or> c = CHR 0x27)"

definition not_quote :: rx where
  "not_quote = Chr (\<lambda>c. c \<noteq> CHR 0x22 \<and> c \<noteq> CHR 0x27)"

definition not_gt :: rx where
  "not_gt = Chr (\<lambda>c. c \<noteq> CHR ''>'')"

text \<open>\<open>/^\d{12,14}$/\<close>\<close>

definition ean_rx :: rx where
  "ean_rx = rx_seq [Bol, rx_rep 12 digit, rx_opt (Seq digit (rx_opt digit)), Eol]"

text \<open>
  \<open>new RegExp(String.raw`(Num(?:E|e)ro\s+du\s+produit\s*:?\s*)?${escapeReg(num)}`, "i")\<close>,
  where \<open>E\<close> stands for the letter e with acute accent of the source. \<open>escapeReg\<close> puts
  a backslash before every syntax character of a pattern (the dot, the star, the plus
  and question marks, the caret, the dollar, the three kinds of brackets, the bar and
  the backslash), so \<open>RegExp\<close> reads every character of \<open>num\<close> as a pattern character
  that matches itself, up to case under flag \<open>i\<close>.
\<close>

definition label_rx :: rx where
  "label_rx = rx_seq [rx_word liti ''Num'', Alt (liti (CHR 0xE9)) (liti CHR ''e''),
     rx_word liti ''ro'', rx_plus space, rx_word liti ''du'', rx_plus space,
     rx_word liti ''produit'', Star space, rx_opt (liti CHR '':''), Star space]"

definition product_number_rx :: "string \<Rightarrow> rx" where
  "product_number_rx num = Seq (rx_opt (Grp 1 label_rx)) (rx_word liti num)"

text \<open>\<open>/<meta[^>]+property=["']og:image["'][^>]+content=["']([^"']+)["']/i\<close>, and the
  same with \<open>og:title\<close>.\<close>

definition og_rx :: "string \<Rightarrow> rx" where
  "og_rx prop = rx_seq [rx_word liti ''<meta'', rx_plus not_gt, rx_word liti ''property='',
     quote, rx_word liti prop, quote, rx_plus not_gt, rx_word liti ''content='', quote,
     Grp 1 (rx_plus not_quote), quote]"

text \<open>\<open>/<img[^>]+src=["']([^"']+)["'][^>]*class=["'][^"']*(product|main|image|photo|picture)[^"']*["']/i\<close>\<close>

definition img_rx :: rx where
  "img_rx = rx_seq [rx_word liti ''<img'', rx_plus not_gt, rx_word liti ''src='', quote,
     Grp 1 (rx_plus not_quote), quote, Star not_gt, rx_word liti ''class='', quote,
     Star not_quote,
     Grp 2 (Alt (rx_word liti ''product'') (Alt (rx_word liti ''main'')
        (Alt (rx_word liti ''image'') (Alt (rx_word liti ''photo'') (rx_word liti ''picture''))))),
     Star not_quote, quote]"

text \<open>\<open>/<title[^>]*>([^<]+)<\/title>/i\<close>\<close>

definition title_rx :: rx where
  "title_rx = rx_seq [rx_word liti ''<title'', Star not_gt, liti CHR ''>'',
     Grp 1 (rx_plus (Chr (\<lambda>c. c \<noteq> CHR ''<''))), rx_word liti ''</title>'']"

text \<open>\<open>/<a[^>]+class="result__a"[^>]+href="([^"]+)"/gi\<close>\<close>

definition result_a_rx :: rx where
  "result_a_rx = rx_seq [rx_word liti ''<a'', rx_plus not_gt, rx_word liti ''class='',
     lit (CHR 0x22), rx_word liti ''result__a'', lit (CHR 0x22), rx_plus not_gt,
     rx_word liti ''href='', lit (CHR 0x22), Grp 1 (rx_plus (Chr (\<lambda>c. c \<noteq> CHR 0x22))),
     lit (CHR 0x22)]"

text \<open>The five patterns of \<open>cleanName\<close>: \<open>/\bGD\d{3,}\b/gi\<close>, \<open>/\b\d{6,}\b/g\<close>,
  \<open>/\([^)]*\)/g\<close>, \<open>/[^\p{L}\p{N}\s]/gu\<close> and \<open>/\s+/g\<close>.\<close>

definition sku_rx :: rx where
  "sku_rx = rx_seq [WordB, rx_word liti ''GD'', rx_rep 3 digit, Star digit, WordB]"

definition long_digits_rx :: rx where
  "long_digits_rx = rx_seq [WordB, rx_rep 6 digit, Star digit, WordB]"

definition paren_rx :: rx where
  "paren_rx = rx_seq [lit CHR ''('', Star (Chr (\<lambda>c. c \<noteq> CHR '')'')), lit CHR '')'']"

definition punct_rx :: rx where
  "punct_rx = Chr (\<lambda>c. \<not> is_letter c \<and> \<not> is_number c \<and> \<not> is_space c)"

definition spaces_rx :: rx where
  "spaces_rx = rx_plus space"

section \<open>Text Normalizer and Similarity Scorer\<close>

definition cleanName :: "string \<Rightarrow> string" where
  "cleanName n =
     trim (replaceAll spaces_rx '' '' (replaceAll punct_rx '' '' (replaceAll paren_rx '' ''
       (replaceAll long_digits_rx '' '' (replaceAll sku_rx '' '' n)))))"

definition tokens :: "string \<Rightarrow> string list" where
  "tokens s = filter (\<lambda>t. t \<noteq> []) (str_split spaces_rx (toLowerCase (cleanName s)))"

text \<open>
  \<open>similarity\<close> computes in double precision; the model computes the same expression
  over the reals. A \<open>Set\<close> built from an array keeps the first occurrence of each
  element: \<open>remdups\<close> keeps the last, which has the same size and the same members.
\<close>

definition similarity :: "string list \<Rightarrow> string list \<Rightarrow> real" where
  "similarity a b =
     (let A = remdups a; B = remdups b;
          inter = length (filter (\<lambda>x. x \<in> set B) A);
          den = max 1 (sqrt (real (length A * length B)))
      in real inter / den)"

section \<open>HTML Extractors and acceptance tests\<close>

text \<open>\<open>m && m[1]\<close> for \<open>m = html.match(re)\<close>, and the string a value stands for where the
  source has made sure it is one (\<open>null\<close> only where the source writes \<open>""\<close>).\<close>

definition match1 :: "rx \<Rightarrow> string \<Rightarrow> string option" where
  "match1 r html = (case rx_exec r html of None \<Rightarrow> None | Some m \<Rightarrow> group 1 m)"

definition str_of :: "string option \<Rightarrow> string" where
  "str_of v = (case v of None \<Rightarrow> [] | Some s \<Rightarrow> s)"

definition extractTitle :: "string \<Rightarrow> string" where
  "extractTitle html =
     (let og = match1 (og_rx ''og:title'') html in
      if truthy og then str_of og
      else str_of (match1 title_rx html))"

definition containsProductNumber :: "string \<Rightarrow> string \<Rightarrow> bool" where
  "containsProductNumber html num = rx_test (product_number_rx num) html"

definition ean_format :: "string \<Rightarrow> bool" where
  "ean_format ean = rx_test ean_rx ean"

section \<open>The platform\<close>

text \<open>
  The worker calls the network and the runtime's URL library. They are parameters of
  the model: \<open>net_fetch u\<close> is what \<open>await fetch(u, ...)\<close> followed by
  \<open>await res.text()\<close> gives (\<open>None\<close> when either rejects, otherwise the response's
  \<open>ok\<close> flag and body), fixed for the duration of one request; \<open>url_parse u\<close> is
  \<open>new URL(u)\<close> (\<open>None\<close> when it throws) with the four properties the worker reads;
  \<open>decodeURIComponent\<close> is \<open>None\<close> when it throws. The \<open>User-Agent\<close> header every
  call carries is left out.
\<close>

record response =
  res_ok :: bool
  res_text :: string

record url =
  hostname :: string
  pathname :: string
  origin :: string
  searchParams :: "(string \<times> string) list"

record platform =
  net_fetch :: "string \<Rightarrow> response option"
  url_parse :: "string \<Rightarrow> url option"
  encodeURIComponent :: "string \<Rightarrow> string"
  decodeURIComponent :: "string \<Rightarrow> string option"

text \<open>What a call does: it throws, or it returns a value.\<close>

datatype 'a outcome = Threw | Ret 'a

text \<open>The outbound calls, in the order they are made: the search request of
  \<open>ddgLinks\<close> and the candidate page requests of the strategies.\<close>

datatype call = Search string | Page string

section \<open>Image extraction\<close>

definition extractImage :: "platform \<Rightarrow> string \<Rightarrow> string \<Rightarrow> string option outcome" where
  "extractImage env candidate html =
     (let imageUrl = match1 (og_rx ''og:image'') html;
          imageUrl = (if \<not> truthy imageUrl then match1 img_rx html else imageUrl)
      in if \<not> truthy imageUrl then Ret None
         else if startsWith (str_of imageUrl) ''/''
         then (case url_parse env candidate of
                 None \<Rightarrow> Threw
               | Some u \<Rightarrow> Ret (Some (origin u @ str_of imageUrl)))
         else Ret imageUrl)"

section \<open>Candidate Source\<close>

text \<open>The three \<open>map\<close> steps and the \<open>filter\<close> of \<open>ddgLinks\<close>.\<close>

definition href_of :: "mstate \<Rightarrow> string" where
  "href_of m = str_of (group 1 m)"

definition absolutize :: "string \<Rightarrow> string" where
  "absolutize href = (if startsWith href ''//'' then ''https:'' @ href else href)"

definition unwrap :: "platform \<Rightarrow> string \<Rightarrow> string" where
  "unwrap env href =
     (case url_parse env href of
        None \<Rightarrow> href
      | Some u \<Rightarrow>
          if str_includes (hostname u) ''duckduckgo.com'' \<and> startsWith (pathname u) ''/l/''
          then (let raw = map_of (searchParams u) ''uddg'' in
                if truthy raw
                then (case decodeURIComponent env (str_of raw) of None \<Rightarrow> href | Some d \<Rightarrow> d)
                else href)
          else href)"

definition on_site :: "platform \<Rightarrow> string \<Rightarrow> bool" where
  "on_site env u2 =
     (case url_parse env u2 of None \<Rightarrow> False | Some u \<Rightarrow> str_includes (hostname u) ''bringo.ma'')"

definition ddgLinks :: "platform \<Rightarrow> string \<Rightarrow> string list outcome \<times> call list" where
  "ddgLinks env query =
     (let u = ''https://duckduckgo.com/html/?q='' @ encodeURIComponent env query in
      case net_fetch env u of
        None \<Rightarrow> (Threw, [Search u])
      | Some res \<Rightarrow>
          (let html = res_text res;
               links = filter (on_site env) (map (unwrap env) (map absolutize
                         (map href_of (rx_matchAll result_a_rx None html))))
           in (Ret (take 8 links), [Search u])))"

section \<open>Resolution Strategies\<close>

text \<open>The records pushed on \<open>tried\<close>: \<open>{candidate, reason: "token", ok}\<close> by
  \<open>findByToken\<close> and \<open>{candidate, title, score}\<close> by \<open>findByName\<close>.\<close>

datatype attempt = TokenAttempt string bool | TitleAttempt string string real

fun attempt_candidate :: "attempt \<Rightarrow> string" where
  "attempt_candidate (TokenAttempt c b) = c"
| "attempt_candidate (TitleAttempt c t s) = c"

record match_result =
  imageUrl :: string
  productUrl :: string
  matchedBy :: string
  score :: real

text \<open>A strategy returns \<open>okPayload({..., tried})\<close> or \<open>{ok: false, tried}\<close>.\<close>

datatype strategy_result = Hit match_result "attempt list" | Miss "attempt list"

fun ok :: "strategy_result \<Rightarrow> bool" where
  "ok (Hit m t) = True"
| "ok (Miss t) = False"

fun tried :: "strategy_result \<Rightarrow> attempt list" where
  "tried (Hit m t) = t"
| "tried (Miss t) = t"

text \<open>
  The loop of \<open>findByToken\<close> over the candidates left, with the trace so far. The
  \<open>try\<close> block covers the fetch, the push, the acceptance test and the extraction; an
  exception in it goes on with the next candidate.
\<close>

fun token_loop :: "platform \<Rightarrow> (string \<Rightarrow> bool) \<Rightarrow> string list \<Rightarrow> attempt list
    \<Rightarrow> strategy_result \<times> call list" where
  "token_loop env accept [] trace = (Miss trace, [])"
| "token_loop env accept (candidate # cands) trace =
     (case net_fetch env candidate of
        None \<Rightarrow> (let (r, calls) = token_loop env accept cands trace
                 in (r, Page candidate # calls))
      | Some res \<Rightarrow>
          (let html = res_text res;
               trace' = trace @ [TokenAttempt candidate (res_ok res)];
               found = (if accept html then extractImage env candidate html else Ret None)
           in case found of
                Ret (Some img) \<Rightarrow>
                  (Hit \<lparr>imageUrl = img, productUrl = candidate,
                        matchedBy = ''subcode/ean'', score = 1\<rparr> trace', [Page candidate])
              | _ \<Rightarrow> (let (r, calls) = token_loop env accept cands trace'
                       in (r, Page candidate # calls))))"

definition findByToken :: "platform \<Rightarrow> string \<Rightarrow> string \<Rightarrow> (string \<Rightarrow> bool)
    \<Rightarrow> strategy_result outcome \<times> call list" where
  "findByToken env site token accept =
     (let q = ''site:'' @ site @ '' '' @ token in
      case ddgLinks env q of
        (Threw, calls) \<Rightarrow> (Threw, calls)
      | (Ret results, calls) \<Rightarrow>
          (let (r, calls') = token_loop env accept results [] in (Ret r, calls @ calls')))"

text \<open>The loop of \<open>findByName\<close>; \<open>best = ...; break\<close> followed by the \<open>okPayload\<close>
  after the loop is the \<open>Hit\<close>.\<close>

fun name_loop :: "platform \<Rightarrow> string \<Rightarrow> string list \<Rightarrow> attempt list
    \<Rightarrow> strategy_result \<times> call list" where
  "name_loop env qName [] trace = (Miss trace, [])"
| "name_loop env qName (candidate # cands) trace =
     (case net_fetch env candidate of
        None \<Rightarrow> (let (r, calls) = name_loop env qName cands trace
                 in (r, Page candidate # calls))
      | Some res \<Rightarrow>
          (let html = res_text res;
               title = extractTitle html;
               sc = similarity (tokens qName) (tokens title);
               trace' = trace @ [TitleAttempt candidate title sc];
               found = (if sc \<ge> 0.6 then extractImage env candidate html else Ret None)
           in case found of
                Ret (Some img) \<Rightarrow>
                  (Hit \<lparr>imageUrl = img, productUrl = candidate,
                        matchedBy = ''name'', score = sc\<rparr> trace', [Page candidate])
              | _ \<Rightarrow> (let (r, calls) = name_loop env qName cands trace'
                       in (r, Page candidate # calls))))"

definition findByName :: "platform \<Rightarrow> string \<Rightarrow> string \<Rightarrow> strategy_result outcome \<times> call list" where
  "findByName env site rawName =
     (let qName = cleanName rawName;
          q = ''site:'' @ site @ '' '' @ qName in
      case ddgLinks env q of
        (Threw, calls) \<Rightarrow> (Threw, calls)
      | (Ret results, calls) \<Rightarrow>
          (let (r, calls') = name_loop env qName results [] in (Ret r, calls @ calls')))"

section \<open>Dispatcher\<close>

text \<open>The query parameters as \<open>url.searchParams.get\<close> gives them (\<open>None\<close> for
  \<open>null\<close>), and \<open>url.searchParams.has("debug")\<close>.\<close>

record params =
  p_site :: "string option"
  p_subcode :: "string option"
  p_ean :: "string option"
  p_name :: "string option"
  p_debug :: bool

text \<open>The three response bodies; \<open>j(body, status)\<close> is the pair of them, the fixed
  headers left out. The body of a match has \<open>tried\<close> only under \<open>debug\<close>.\<close>

datatype body =
    ErrorBody string
  | MatchBody match_result "attempt list option"
  | NoMatchBody "attempt list list"

record http_response =
  status :: nat
  body :: body

definition j :: "body \<Rightarrow> nat \<Rightarrow> http_response" where
  "j b st = \<lparr>status = st, body = b\<rparr>"

text \<open>\<open>r.payload(debug)\<close>. The worker calls it on a successful result only. A miss has
  no \<open>payload\<close>; the second equation is there to make the function total and is
  never reached from the dispatcher.\<close>

fun payload :: "strategy_result \<Rightarrow> bool \<Rightarrow> body" where
  "payload (Hit m t) debug = MatchBody m (if debug then Some t else None)"
| "payload (Miss t) debug = NoMatchBody [t]"

text \<open>\<open>(url.searchParams.get(k) || "").trim()\<close>\<close>

definition param :: "string option \<Rightarrow> string" where
  "param v = trim (if truthy v then str_of v else [])"

text \<open>The strategies in the order the dispatcher has them. Each outbound call is
  listed with the strategy whose invocation made it.\<close>

datatype strategy = BySubcode | ByEan | ByName

fun priority :: "strategy \<Rightarrow> nat" where
  "priority BySubcode = 1"
| "priority ByEan = 2"
| "priority ByName = 3"

definition made_by :: "strategy \<Rightarrow> call list \<Rightarrow> (strategy \<times> call) list" where
  "made_by s calls = map (Pair s) calls"

definition no_match :: "attempt list list \<Rightarrow> http_response" where
  "no_match trace = j (NoMatchBody trace) 404"

definition try_name :: "platform \<Rightarrow> string \<Rightarrow> string \<Rightarrow> bool \<Rightarrow> attempt list list
    \<Rightarrow> http_response outcome \<times> (strategy \<times> call) list" where
  "try_name env site name debug trace =
     (if name \<noteq> [] then
        (case findByName env site name of
           (Threw, calls) \<Rightarrow> (Threw, made_by ByName calls)
         | (Ret r, calls) \<Rightarrow>
             if ok r then (Ret (j (payload r debug) 200), made_by ByName calls)
             else (Ret (no_match (trace @ [tried r])), made_by ByName calls))
      else (Ret (no_match trace), []))"

definition try_ean :: "platform \<Rightarrow> string \<Rightarrow> string \<Rightarrow> string \<Rightarrow> bool \<Rightarrow> attempt list list
    \<Rightarrow> http_response outcome \<times> (strategy \<times> call) list" where
  "try_ean env site ean name debug trace =
     (if ean \<noteq> [] \<and> ean_format ean then
        (case findByToken env site ean (\<lambda>html. str_includes html ean) of
           (Threw, calls) \<Rightarrow> (Threw, made_by ByEan calls)
         | (Ret r, calls) \<Rightarrow>
             if ok r then (Ret (j (payload r debug) 200), made_by ByEan calls)
             else (let (resp, calls') = try_name env site name debug (trace @ [tried r])
                   in (resp, made_by ByEan calls @ calls')))
      else try_name env site name debug trace)"

text \<open>The \<open>fetch\<close> handler of the worker.\<close>

definition worker_fetch :: "platform \<Rightarrow> params
    \<Rightarrow> http_response outcome \<times> (strategy \<times> call) list" where
  "worker_fetch env request =
     (let site = (if truthy (p_site request) then str_of (p_site request) else ''bringo.ma'');
          subcode = param (p_subcode request);
          ean = param (p_ean request);
          name = param (p_name request);
          debug = p_debug request
      in if subcode = [] \<and> ean = [] \<and> name = []
         then (Ret (j (ErrorBody ''Provide subcode, ean or name.'') 400), [])
         else if subcode \<noteq> [] then
           (case findByToken env site subcode (\<lambda>html. containsProductNumber html subcode) of
              (Threw, calls) \<Rightarrow> (Threw, made_by BySubcode calls)
            | (Ret r, calls) \<Rightarrow>
                if ok r then (Ret (j (payload r debug) 200), made_by BySubcode calls)
                else (let (resp, calls') = try_ean env site ean name debug [tried r]
                      in (resp, made_by BySubcode calls @ calls')))
         else try_ean env site ean name debug [])"

section \<open>Notions used to state the properties\<close>

text \<open>The candidate pages requested, in order, among the calls of a strategy.\<close>

fun pages :: "call list \<Rightarrow> string list" where
  "pages [] = []"
| "pages (Search u # calls) = pages calls"
| "pages (Page u # calls) = u # pages calls"

text \<open>The record each strategy makes of a candidate whose page request returned.\<close>

definition token_record :: "platform \<Rightarrow> string \<Rightarrow> attempt option" where
  "token_record env c =
     (case net_fetch env c of None \<Rightarrow> None | Some res \<Rightarrow> Some (TokenAttempt c (res_ok res)))"

definition title_record :: "platform \<Rightarrow> string \<Rightarrow> string \<Rightarrow> attempt option" where
  "title_record env qName c =
     (case net_fetch env c of
        None \<Rightarrow> None
      | Some res \<Rightarrow> Some (TitleAttempt c (extractTitle (res_text res))
          (similarity (tokens qName) (tokens (extractTitle (res_text res))))))"

text \<open>What the page of a candidate gives the name strategy: the score of its title
  against the cleaned query, and the image extracted from it.\<close>

definition page_score :: "platform \<Rightarrow> string \<Rightarrow> string \<Rightarrow> real option" where
  "page_score env qName c =
     (case net_fetch env c of
        None \<Rightarrow> None
      | Some res \<Rightarrow> Some (similarity (tokens qName) (tokens (extractTitle (res_text res)))))"

definition page_image :: "platform \<Rightarrow> string \<Rightarrow> string option" where
  "page_image env c =
     (case net_fetch env c of
        None \<Rightarrow> None
      | Some res \<Rightarrow>
          (case extractImage env c (res_text res) of Ret (Some img) \<Rightarrow> Some img | _ \<Rightarrow> None))"

definition qualifies :: "platform \<Rightarrow> string \<Rightarrow> string \<Rightarrow> bool" where
  "qualifies env qName c =
     (case page_score env qName c of
        None \<Rightarrow> False
      | Some s \<Rightarrow> s \<ge> 0.6 \<and> page_image env c \<noteq> None)"

text \<open>The identifiers of a request as the dispatcher reads them, the strategies that
  apply to it, and the invocation the dispatcher makes of each.\<close>

definition site_of :: "params \<Rightarrow> string" where
  "site_of request = (if truthy (p_site request) then str_of (p_site request) else ''bringo.ma'')"

fun applicable :: "params \<Rightarrow> strategy \<Rightarrow> bool" where
  "applicable request BySubcode = (param (p_subcode request) \<noteq> [])"
| "applicable request ByEan =
     (param (p_ean request) \<noteq> [] \<and> ean_format (param (p_ean request)))"
| "applicable request ByName = (param (p_name request) \<noteq> [])"

fun invocation :: "platform \<Rightarrow> params \<Rightarrow> strategy \<Rightarrow> strategy_result outcome \<times> call list" where
  "invocation env request BySubcode =
     findByToken env (site_of request) (param (p_subcode request))
       (\<lambda>html. containsProductNumber html (param (p_subcode request)))"
| "invocation env request ByEan =
     findByToken env (site_of request) (param (p_ean request))
       (\<lambda>html. str_includes html (param (p_ean request)))"
| "invocation env request ByName =
     findByName env (site_of request) (param (p_name request))"

definition succeeds :: "platform \<Rightarrow> params \<Rightarrow> strategy \<Rightarrow> bool" where
  "succeeds env request s =
     (applicable request s \<and>
      (case fst (invocation env request s) of Threw \<Rightarrow> False | Ret r \<Rightarrow> ok r))"

text \<open>
  The dispatcher as a list of strategies gone through in order: a strategy that does
  not apply is skipped, one that throws or succeeds ends the run, one that misses
  hands its trace on. \<open>calls_of s evs\<close> are the calls made by strategy \<open>s\<close>.
\<close>

fun pipeline :: "platform \<Rightarrow> params \<Rightarrow> strategy list \<Rightarrow> attempt list list
    \<Rightarrow> http_response outcome \<times> (strategy \<times> call) list" where
  "pipeline env request [] trace = (Ret (no_match trace), [])"
| "pipeline env request (s # ss) trace =
     (if applicable request s then
        (case invocation env request s of
           (Threw, calls) \<Rightarrow> (Threw, made_by s calls)
         | (Ret r, calls) \<Rightarrow>
             if ok r then (Ret (j (payload r (p_debug request)) 200), made_by s calls)
             else (let (resp, evs) = pipeline env request ss (trace @ [tried r])
                   in (resp, made_by s calls @ evs)))
      else pipeline env request ss trace)"

definition calls_of :: "strategy \<Rightarrow> (strategy \<times> call) list \<Rightarrow> call list" where
  "calls_of s evs = map snd (filter (\<lambda>ev. fst ev = s) evs)"

text \<open>
  When the dispatcher reaches a strategy. \<open>earlier s\<close> are the strategies before \<open>s\<close>
  in the order of the dispatcher; a strategy \<open>misses\<close> when its invocation returns
  without a match (it neither throws nor succeeds); \<open>reaches env request s\<close> says
  that \<open>s\<close> applies and every applicable strategy before it misses. \<open>trace_of\<close> is
  the trace a returned invocation hands to the dispatcher.
\<close>

fun earlier :: "strategy \<Rightarrow> strategy list" where
  "earlier BySubcode = []"
| "earlier ByEan = [BySubcode]"
| "earlier ByName = [BySubcode, ByEan]"

definition misses :: "platform \<Rightarrow> params \<Rightarrow> strategy \<Rightarrow> bool" where
  "misses env request s =
     (case fst (invocation env request s) of Threw \<Rightarrow> False | Ret r \<Rightarrow> \<not> ok r)"

definition reaches :: "platform \<Rightarrow> params \<Rightarrow> strategy \<Rightarrow> bool" where
  "reaches env request s =
     (applicable request s \<and>
      list_all (\<lambda>s'. applicable request s' \<longrightarrow> misses env request s') (earlier s))"

definition trace_of :: "platform \<Rightarrow> params \<Rightarrow> strategy \<Rightarrow> attempt list" where
  "trace_of env request s =
     (case fst (invocation env request s) of Threw \<Rightarrow> [] | Ret r \<Rightarrow> tried r)"

text \<open>
  Runs of digits. \<open>digits_ahead s\<close> is the length of the run of digits \<open>s\<close> starts
  with, \<open>long_digit_run s\<close> says that \<open>s\<close> contains six or more digits in a row.
  \<open>standalone_runs pv s\<close> says that every run of six or more digits in \<open>s\<close> stands
  between word boundaries: the character before it (\<open>pv\<close> for a run at the start of
  \<open>s\<close>) and the character after it, when there is one, are not word characters.
\<close>

definition digits_ahead :: "string \<Rightarrow> nat" where
  "digits_ahead s = length (takeWhile is_digit s)"










section \<open>A scenario\<close>

text \<open>
  A platform to run the worker on: every search answers with the same result page of
  two links, the first product page cannot be reached, the second is the page of
  product 694062. \<open>uri_component\<close> is
  \<open>encodeURIComponent\<close> on code units below 256: the unreserved characters stay, the
  others become the percent-escaped bytes of their UTF-8 form. \<open>url_parse\<close> is given
  for the URLs of the scenario; nothing in it is percent-decoded.
\<close>

definition uri_unreserved :: "char \<Rightarrow> bool" where
  "uri_unreserved c = (let n = code_unit c in
     (48 \<le> n \<and> n \<le> 57) \<or> (65 \<le> n \<and> n \<le> 90) \<or> (97 \<le> n \<and> n \<le> 122) \<or>
     n = 39 \<or> c \<in> set ''-_.!~*()'')"

definition percent :: "nat \<Rightarrow> string" where
  "percent b = [CHR ''%'', ''0123456789ABCDEF'' ! (b div 16), ''0123456789ABCDEF'' ! (b mod 16)]"

definition uri_component :: "string \<Rightarrow> string" where
  "uri_component s = concat (map (\<lambda>c.
     let n = code_unit c in
     if uri_unreserved c then [c]
     else if n < 128 then percent n
     else percent (192 + n div 64) @ percent (128 + n mod 64)) s)"

definition results_page :: string where
  \<open>results_page = ''<a class="result__a" href="https://bringo.ma/p/1"><a class="result__a" href="https://bringo.ma/p/123">''\<close>

definition product_page :: string where
  \<open>product_page = ''<title>Salon Bas Lanka</title><meta property="og:image" content="/img/x.jpg">Numero du produit: 694062''\<close>

definition shop_url :: "string \<Rightarrow> string \<Rightarrow> url" where
  "shop_url host path =
     \<lparr>hostname = host, pathname = path, origin = ''https://'' @ host, searchParams = []\<rparr>"

definition shop :: platform where
  "shop = \<lparr>
     net_fetch = (\<lambda>u.
       if u = ''https://bringo.ma/p/1'' then None
       else if u = ''https://bringo.ma/p/123''
       then Some \<lparr>res_ok = True, res_text = product_page\<rparr>
       else if startsWith u ''https://duckduckgo.com/html/?q=''
       then Some \<lparr>res_ok = True, res_text = results_page\<rparr>
       else None),
     url_parse = map_of [
       (''https://bringo.ma/p/1'', shop_url ''bringo.ma'' ''/p/1''),
       (''https://bringo.ma/p/123'', shop_url ''bringo.ma'' ''/p/123'')],
     encodeURIComponent = uri_component,
     decodeURIComponent = (\<lambda>s. if CHR ''%'' \<in> set s then None else Some s)\<rparr>"

text \<open>Three requests: a subcode with a name, a malformed EAN with a name, and an EAN
  that no page of the scenario contains.\<close>

definition subcode_and_name :: params where
  "subcode_and_name = \<lparr>p_site = None, p_subcode = Some ''694062'', p_ean = None,
     p_name = Some ''Salon Bas Lanka'', p_debug = False\<rparr>"

definition bad_ean_and_name :: params where
  "bad_ean_and_name = \<lparr>p_site = None, p_subcode = None, p_ean = Some ''12345'',
     p_name = Some ''Salon Bas Lanka'', p_debug = False\<rparr>"

definition ean_only :: params where
  "ean_only = \<lparr>p_site = None, p_subcode = None, p_ean = Some ''3616479540274'',
     p_name = None, p_debug = False\<rparr>"

definition no_identifier :: params where
  "no_identifier = \<lparr>p_site = Some ''bringo.ma'', p_subcode = None, p_ean = Some ''  '',
     p_name = Some [], p_debug = True\<rparr>"

text \<open>A request with an EAN that no page contains and a name, and the scenario with
  the network down: every request throws.\<close>

definition ean_and_name :: params where
  "ean_and_name = \<lparr>p_site = None, p_subcode = None, p_ean = Some ''3616479540274'',
     p_name = Some ''Salon Bas Lanka'', p_debug = False\<rparr>"

definition offline :: platform where
  "offline = shop\<lparr>net_fetch := (\<lambda>u. None)\<rparr>"

text \<open>A page whose Open Graph image is protocol-relative.\<close>

definition cdn_page :: string where
  \<open>cdn_page = ''<meta property="og:image" content="//cdn.bringo.ma/x.jpg">''\<close>

section \<open>The matcher stays inside its input\<close>

lemma rxm_suffix: "st' \<in> set (rxm r st) \<Longrightarrow> suffix (rest st') (rest st)"
proof (induction r st arbitrary: st' rule: rxm.induct)
  case (1 P st)
  then show ?case by (cases "rest st") (auto simp: suffix_def split: if_splits)
next
  case (2 st)
  then show ?case by simp
next
  case (3 a b st)
  from "3.prems" obtain m where m: "m \<in> set (rxm a st)" "st' \<in> set (rxm b m)" by auto
  have "suffix (rest m) (rest st)" using "3.IH"(1) m(1) by blast
  moreover have "suffix (rest st') (rest m)" using "3.IH"(2) m by blast
  ultimately show ?case by (rule suffix_order.trans [rotated])
next
  case (4 a b st)
  from "4.prems" have "st' \<in> set (rxm a st) \<or> st' \<in> set (rxm b st)" by simp
  then show ?case using "4.IH" by blast
next
  case (5 a st)
  from "5.prems" consider "st' = st"
    | m where "m \<in> set (rxm a st)" "length (rest m) < length (rest st)"
        "st' \<in> set (rxm (Star a) m)"
    by (subst (asm) rxm.simps(5)) auto
  then show ?case
  proof cases
    case 1
    then show ?thesis by simp
  next
    case 2
    have "suffix (rest m) (rest st)" using "5.IH"(1) 2(1) by blast
    moreover have "suffix (rest st') (rest m)" using "5.IH"(2) 2 by simp
    ultimately show ?thesis by (rule suffix_order.trans [rotated])
  qed
next
  case (6 n a st)
  from "6.prems" obtain m where m: "m \<in> set (rxm a st)" "rest st' = rest m" by auto
  then show ?case using "6.IH" by simp
next
  case (7 st)
  then show ?case by (simp split: if_splits)
next
  case (8 st)
  then show ?case by (simp split: if_splits)
next
  case (9 st)
  then show ?case by (simp split: if_splits)
qed

section \<open>The scenario, evaluated\<close>

lemma results_links:
  "map href_of (rx_matchAll result_a_rx None results_page) =
     [''https://bringo.ma/p/1'', ''https://bringo.ma/p/123'']"
  by code_simp

lemma shop_hosts:
  "\<not> str_includes ''bringo.ma'' ''duckduckgo.com''"
  "str_includes ''bringo.ma'' ''bringo.ma''"
  "\<not> str_includes ''bringo.ma'' ''example.com''"
  by code_simp+

lemma shop_links:
  "filter (on_site shop) (map (unwrap shop) (map absolutize
     (map href_of (rx_matchAll result_a_rx None results_page)))) =
   [''https://bringo.ma/p/1'', ''https://bringo.ma/p/123'']"
  unfolding results_links
  by (simp add: shop_def startsWith_def absolutize_def unwrap_def on_site_def shop_url_def
      shop_hosts)

lemma shop_search_fetch:
  "net_fetch shop (''https://duckduckgo.com/html/?q='' @ x) =
     Some \<lparr>res_ok = True, res_text = results_page\<rparr>"
  "encodeURIComponent shop = uri_component"
  by (simp_all add: shop_def startsWith_def)

lemma shop_search:
  "ddgLinks shop q =
     (Ret [''https://bringo.ma/p/1'', ''https://bringo.ma/p/123''],
      [Search (''https://duckduckgo.com/html/?q='' @ uri_component q)])"
  unfolding ddgLinks_def Let_def shop_search_fetch
  by (simp add: shop_links del: map_map)

lemma shop_fetch:
  "net_fetch shop ''https://bringo.ma/p/1'' = None"
  "net_fetch shop ''https://bringo.ma/p/123'' = Some \<lparr>res_ok = True, res_text = product_page\<rparr>"
  by (simp_all add: shop_def)

lemma shop_parse:
  "url_parse shop ''https://bringo.ma/p/1'' = Some (shop_url ''bringo.ma'' ''/p/1'')"
  "url_parse shop ''https://bringo.ma/p/123'' = Some (shop_url ''bringo.ma'' ''/p/123'')"
  by (simp_all add: shop_def)

lemma product_page_og_image: "match1 (og_rx ''og:image'') product_page = Some ''/img/x.jpg''"
  by code_simp

lemma product_page_number: "containsProductNumber product_page ''694062''"
  by code_simp

lemma product_page_ean: "\<not> str_includes product_page ''3616479540274''"
  by code_simp

lemma product_page_image:
  "extractImage shop ''https://bringo.ma/p/123'' product_page =
     Ret (Some ''https://bringo.ma/img/x.jpg'')"
  by (simp add: extractImage_def Let_def product_page_og_image truthy_def str_of_def
      startsWith_def shop_parse shop_url_def)

lemma product_page_title: "extractTitle product_page = ''Salon Bas Lanka''"
  by code_simp

lemma salon_clean: "cleanName ''Salon Bas Lanka'' = ''Salon Bas Lanka''"
  by code_simp

lemma salon_tokens: "tokens ''Salon Bas Lanka'' = [''salon'', ''bas'', ''lanka'']"
  by code_simp

lemma salon_score:
  "similarity [''salon'', ''bas'', ''lanka''] [''salon'', ''bas'', ''lanka''] = 1"
proof -
  have "sqrt 9 = 3" by (rule real_sqrt_unique) simp_all
  then show ?thesis by (simp add: similarity_def Let_def)
qed

lemma cdn_page_og_image: "match1 (og_rx ''og:image'') cdn_page = Some ''//cdn.bringo.ma/x.jpg''"
  by code_simp

lemma subcode_and_name_params:
  "site_of subcode_and_name = ''bringo.ma''"
  "param (p_subcode subcode_and_name) = ''694062''"
  "param (p_ean subcode_and_name) = []"
  "param (p_name subcode_and_name) = ''Salon Bas Lanka''"
  by code_simp+

lemma bad_ean_and_name_params:
  "param (p_subcode bad_ean_and_name) = []"
  "param (p_ean bad_ean_and_name) = ''12345''"
  "param (p_name bad_ean_and_name) = ''Salon Bas Lanka''"
  "\<not> ean_format ''12345''"
  by code_simp+

lemma ean_only_params:
  "site_of ean_only = ''bringo.ma''"
  "param (p_subcode ean_only) = []"
  "param (p_ean ean_only) = ''3616479540274''"
  "param (p_name ean_only) = []"
  "ean_format ''3616479540274''"
  by code_simp+

lemma no_identifier_params:
  "param (p_subcode no_identifier) = []"
  "param (p_ean no_identifier) = []"
  "param (p_name no_identifier) = []"
  by code_simp+

lemma shop_subcode_run:
  "invocation shop subcode_and_name BySubcode =
     (Ret (Hit \<lparr>imageUrl = ''https://bringo.ma/img/x.jpg'',
                productUrl = ''https://bringo.ma/p/123'',
                matchedBy = ''subcode/ean'', score = 1\<rparr>
             [TokenAttempt ''https://bringo.ma/p/123'' True]),
      [Search (''https://duckduckgo.com/html/?q='' @ uri_component ''site:bringo.ma 694062''),
       Page ''https://bringo.ma/p/1'', Page ''https://bringo.ma/p/123''])"
  by (simp add: subcode_and_name_params findByToken_def shop_search shop_fetch
      product_page_number product_page_image)

lemma shop_name_run:
  "findByName shop ''bringo.ma'' ''Salon Bas Lanka'' =
     (Ret (Hit \<lparr>imageUrl = ''https://bringo.ma/img/x.jpg'',
                productUrl = ''https://bringo.ma/p/123'',
                matchedBy = ''name'', score = 1\<rparr>
             [TitleAttempt ''https://bringo.ma/p/123'' ''Salon Bas Lanka'' 1]),
      [Search (''https://duckduckgo.com/html/?q='' @
         uri_component ''site:bringo.ma Salon Bas Lanka''),
       Page ''https://bringo.ma/p/1'', Page ''https://bringo.ma/p/123''])"
  by (simp add: findByName_def Let_def salon_clean shop_search shop_fetch product_page_title
      salon_tokens salon_score product_page_image)

lemma shop_ean_run:
  "invocation shop ean_only ByEan =
     (Ret (Miss [TokenAttempt ''https://bringo.ma/p/123'' True]),
      [Search (''https://duckduckgo.com/html/?q='' @ uri_component ''site:bringo.ma 3616479540274''),
       Page ''https://bringo.ma/p/1'', Page ''https://bringo.ma/p/123''])"
  by (simp add: ean_only_params findByToken_def shop_search shop_fetch product_page_ean)

section \<open>Input validation\<close>

text \<open>
  C6. When \<open>subcode\<close>, \<open>ean\<close> and \<open>name\<close> are all absent (no parameter, an empty one
  or one of white space only), the endpoint answers 400 with an error message and
  makes no outbound call, so no strategy is attempted.
\<close>

theorem missing_identifiers_rejected:
  assumes "param (p_subcode request) = []" "param (p_ean request) = []"
    "param (p_name request) = []"
  shows "worker_fetch env request =
     (Ret \<lparr>status = 400, body = ErrorBody ''Provide subcode, ean or name.''\<rparr>, [])"
  using assms by (simp add: worker_fetch_def Let_def j_def)

theorem missing_identifiers_rejected_witness:
  "param (p_subcode no_identifier) = [] \<and> param (p_ean no_identifier) = [] \<and>
   param (p_name no_identifier) = [] \<and>
   worker_fetch shop no_identifier =
     (Ret \<lparr>status = 400, body = ErrorBody ''Provide subcode, ean or name.''\<rparr>, [])"
  using no_identifier_params
    missing_identifiers_rejected [of no_identifier shop, OF no_identifier_params]
  by simp

section \<open>Similarity Scorer\<close>

lemma inter_le_right:
  assumes "distinct A" "distinct B"
  shows "length (filter (\<lambda>x. x \<in> set B) A) \<le> length B"
proof -
  have "length (filter (\<lambda>x. x \<in> set B) A) = card (set (filter (\<lambda>x. x \<in> set B) A))"
    using assms(1) distinct_card [of "filter (\<lambda>x. x \<in> set B) A"] by simp
  also have "\<dots> \<le> card (set B)"
    by (rule card_mono) auto
  also have "\<dots> = length B"
    using assms(2) by (simp add: distinct_card)
  finally show ?thesis .
qed

lemma inter_le_sqrt:
  assumes "(i::nat) \<le> m" "i \<le> n"
  shows "real i \<le> sqrt (real (m * n))"
proof -
  have "i * i \<le> m * n" using assms by (rule mult_le_mono)
  then have "real (i * i) \<le> real (m * n)" by (rule iffD2 [OF of_nat_le_iff])
  then have "(real i)\<^sup>2 \<le> real (m * n)" by (simp add: power2_eq_square)
  then show ?thesis by (rule real_le_rsqrt)
qed

lemma similarity_range: "0 \<le> similarity a b \<and> similarity a b \<le> 1"
proof -
  let ?A = "remdups a" and ?B = "remdups b"
  let ?i = "length (filter (\<lambda>x. x \<in> set ?B) ?A)"
  let ?d = "max 1 (sqrt (real (length ?A * length ?B)))"
  have d: "0 < ?d" by simp
  have "real ?i \<le> sqrt (real (length ?A * length ?B))"
    by (rule inter_le_sqrt [OF length_filter_le inter_le_right]) simp_all
  then have "real ?i \<le> ?d" by simp
  then have "real ?i / ?d \<le> 1" using d by (simp add: divide_le_eq)
  moreover have "0 \<le> real ?i / ?d" using d by simp
  ultimately show ?thesis by (simp add: similarity_def Let_def)
qed

lemma similarity_disjoint:
  assumes "a = [] \<or> b = [] \<or> set a \<inter> set b = {}"
  shows "similarity a b = 0"
proof -
  have "filter (\<lambda>x. x \<in> set (remdups b)) (remdups a) = []"
    using assms by (auto simp: filter_empty_conv)
  then show ?thesis by (simp add: similarity_def Let_def)
qed

text \<open>
  C8. The score of two token lists lies between 0 and 1; it is 0 when either list is
  empty or the two share no token, in particular for two empty lists, where the
  denominator is 1; and two equal one-token lists score exactly 1. (The score is
  computed over the reals here, in double precision by the worker.)
\<close>

theorem similarity_bounds:
  "0 \<le> similarity a b \<and> similarity a b \<le> 1
   \<and> (a = [] \<or> b = [] \<or> set a \<inter> set b = {} \<longrightarrow> similarity a b = 0)
   \<and> similarity [] [] = 0
   \<and> similarity [t] [t] = 1"
proof -
  have "similarity [t] [t] = 1" by (simp add: similarity_def Let_def)
  then show ?thesis
    using similarity_range [of a b] similarity_disjoint [of a b]
      similarity_disjoint [of "[]" "[]"]
    by blast
qed

theorem similarity_bounds_witness:
  "set [''salon'', ''bas''] \<inter> set [''lanka''] = {}
   \<and> similarity [''salon'', ''bas''] [''lanka''] = 0
   \<and> similarity [] [''lanka''] = 0 \<and> similarity [''lanka''] [] = 0
   \<and> similarity [''lanka''] [''lanka''] = 1"
proof -
  have h: "set [''salon'', ''bas''] \<inter> set [''lanka''] = {}" by simp
  show ?thesis
    using h similarity_bounds [of "[''salon'', ''bas'']" "[''lanka'']" "''lanka''"]
      similarity_bounds [of "[]" "[''lanka'']" "''lanka''"]
      similarity_bounds [of "[''lanka'']" "[]" "''lanka''"]
    by blast
qed

section \<open>The trace of a strategy\<close>

lemma token_loop_trace:
  "token_loop env accept cands trace = (r, calls) \<Longrightarrow>
   tried r = trace @ List.map_filter (token_record env) (pages calls)"
proof (induction cands arbitrary: trace r calls)
  case Nil
  then show ?case by (auto simp: List.map_filter_simps)
next
  case (Cons c cands)
  then show ?case
    by (auto simp: token_record_def Let_def
        split: option.splits prod.splits outcome.splits if_splits)
qed

lemma name_loop_trace:
  "name_loop env qName cands trace = (r, calls) \<Longrightarrow>
   tried r = trace @ List.map_filter (title_record env qName) (pages calls)"
proof (induction cands arbitrary: trace r calls)
  case Nil
  then show ?case by (auto simp: List.map_filter_simps)
next
  case (Cons c cands)
  then show ?case
    by (auto simp: title_record_def Let_def
        split: option.splits prod.splits outcome.splits if_splits)
qed

lemma token_loop_pages:
  "token_loop env accept cands trace = (r, calls) \<Longrightarrow>
   prefix (pages calls) cands \<and> (ok r \<or> pages calls = cands)"
proof (induction cands arbitrary: trace r calls)
  case Nil
  then show ?case by auto
next
  case (Cons c cands)
  from Cons.prems show ?case
    by (auto simp: Let_def split: option.splits prod.splits outcome.splits if_splits
        dest!: Cons.IH)
qed

lemma name_loop_pages:
  "name_loop env qName cands trace = (r, calls) \<Longrightarrow>
   prefix (pages calls) cands \<and> (ok r \<or> pages calls = cands)"
proof (induction cands arbitrary: trace r calls)
  case Nil
  then show ?case by auto
next
  case (Cons c cands)
  from Cons.prems show ?case
    by (auto simp: Let_def split: option.splits prod.splits outcome.splits if_splits
        dest!: Cons.IH)
qed

lemma ddgLinks_pages: "ddgLinks env q = (x, calls) \<Longrightarrow> pages calls = []"
  by (auto simp: ddgLinks_def Let_def split: option.splits)

lemma pages_append: "pages (a @ b) = pages a @ pages b"
  by (induction a rule: pages.induct) auto

lemma findByToken_run:
  assumes "findByToken env site token accept = (Ret r, calls)"
  obtains results calls0 calls1 where
    "ddgLinks env (''site:'' @ site @ '' '' @ token) = (Ret results, calls0)"
    "token_loop env accept results [] = (r, calls1)" "calls = calls0 @ calls1"
  using assms
  by (auto simp: findByToken_def Let_def split: prod.splits outcome.splits)

lemma findByName_run:
  assumes "findByName env site rawName = (Ret r, calls)"
  obtains results calls0 calls1 where
    "ddgLinks env (''site:'' @ site @ '' '' @ cleanName rawName) = (Ret results, calls0)"
    "name_loop env (cleanName rawName) results [] = (r, calls1)" "calls = calls0 @ calls1"
  using assms
  by (auto simp: findByName_def Let_def split: prod.splits outcome.splits)

lemma findByName_returns:
  assumes "ddgLinks env (''site:'' @ site @ '' '' @ cleanName rawName) = (Ret results, calls)"
  obtains r calls' where "findByName env site rawName = (Ret r, calls @ calls')"
    "name_loop env (cleanName rawName) results [] = (r, calls')"
proof -
  obtain r calls' where l: "name_loop env (cleanName rawName) results [] = (r, calls')"
    by (cases "name_loop env (cleanName rawName) results []") auto
  have "findByName env site rawName = (Ret r, calls @ calls')"
    using assms l by (simp add: findByName_def Let_def)
  then show ?thesis using l that by blast
qed

text \<open>
  C4, as the worker has it. The candidates a strategy attempts are those it requests
  the page of: the candidate list in order, up to the first hit. Its trace holds, in
  that order, one record for each attempted candidate whose page request returned a
  response, whatever the HTTP status, the acceptance test and the image extraction
  gave: the URL with the response's \<open>ok\<close> flag for the token strategies, the URL
  with the title and the score for the name strategy. A candidate whose request
  throws leaves no record.
\<close>

theorem trace_records_returned_fetches:
  "(findByToken env site token accept = (Ret r, calls) \<longrightarrow>
      tried r = List.map_filter (token_record env) (pages calls) \<and>
      (\<exists>results. fst (ddgLinks env (''site:'' @ site @ '' '' @ token)) = Ret results \<and>
         prefix (pages calls) results \<and> (ok r \<or> pages calls = results))) \<and>
   (findByName env site rawName = (Ret r', calls') \<longrightarrow>
      tried r' = List.map_filter (title_record env (cleanName rawName)) (pages calls') \<and>
      (\<exists>results. fst (ddgLinks env (''site:'' @ site @ '' '' @ cleanName rawName)) = Ret results \<and>
         prefix (pages calls') results \<and> (ok r' \<or> pages calls' = results)))"
proof (intro conjI impI)
  assume run: "findByToken env site token accept = (Ret r, calls)"
  from run obtain results calls0 calls1 where
    s: "ddgLinks env (''site:'' @ site @ '' '' @ token) = (Ret results, calls0)" and
    l: "token_loop env accept results [] = (r, calls1)" and c: "calls = calls0 @ calls1"
    by (rule findByToken_run)
  have p: "pages calls = pages calls1"
    using c ddgLinks_pages [OF s] by (simp add: pages_append)
  show "tried r = List.map_filter (token_record env) (pages calls)"
    using token_loop_trace [OF l] p by simp
  show "\<exists>results. fst (ddgLinks env (''site:'' @ site @ '' '' @ token)) = Ret results \<and>
         prefix (pages calls) results \<and> (ok r \<or> pages calls = results)"
    using token_loop_pages [OF l] p s by auto
next
  assume run: "findByName env site rawName = (Ret r', calls')"
  from run obtain results calls0 calls1 where
    s: "ddgLinks env (''site:'' @ site @ '' '' @ cleanName rawName) = (Ret results, calls0)" and
    l: "name_loop env (cleanName rawName) results [] = (r', calls1)" and
    c: "calls' = calls0 @ calls1"
    by (rule findByName_run)
  have p: "pages calls' = pages calls1"
    using c ddgLinks_pages [OF s] by (simp add: pages_append)
  show "tried r' = List.map_filter (title_record env (cleanName rawName)) (pages calls')"
    using name_loop_trace [OF l] p by simp
  show "\<exists>results. fst (ddgLinks env (''site:'' @ site @ '' '' @ cleanName rawName)) = Ret results \<and>
         prefix (pages calls') results \<and> (ok r' \<or> pages calls' = results)"
    using name_loop_pages [OF l] p s by auto
qed

text \<open>In the scenario the EAN strategy attempts both candidates and records one; the
  name strategy returns as well.\<close>

theorem trace_records_returned_fetches_witness:
  "findByToken shop ''bringo.ma'' ''3616479540274'' (\<lambda>html. str_includes html ''3616479540274'') =
     (Ret (Miss [TokenAttempt ''https://bringo.ma/p/123'' True]),
      [Search (''https://duckduckgo.com/html/?q='' @ uri_component ''site:bringo.ma 3616479540274''),
       Page ''https://bringo.ma/p/1'', Page ''https://bringo.ma/p/123'']) \<and>
   [TokenAttempt ''https://bringo.ma/p/123'' True] =
     List.map_filter (token_record shop) [''https://bringo.ma/p/1'', ''https://bringo.ma/p/123''] \<and>
   (\<exists>r' calls'. findByName shop ''bringo.ma'' ''Salon Bas Lanka'' = (Ret r', calls') \<and>
      tried r' = List.map_filter (title_record shop (cleanName ''Salon Bas Lanka'')) (pages calls'))"
proof -
  let ?calls = "[Search (''https://duckduckgo.com/html/?q='' @
        uri_component ''site:bringo.ma 3616479540274''),
      Page ''https://bringo.ma/p/1'', Page ''https://bringo.ma/p/123'']"
  let ?r = "Miss [TokenAttempt ''https://bringo.ma/p/123'' True]"
  have t: "findByToken shop ''bringo.ma'' ''3616479540274''
      (\<lambda>html. str_includes html ''3616479540274'') = (Ret ?r, ?calls)"
    using shop_ean_run by (simp add: ean_only_params)
  obtain r' calls' where n: "findByName shop ''bringo.ma'' ''Salon Bas Lanka'' = (Ret r', calls')"
    by (rule findByName_returns [OF shop_search, of "''bringo.ma''" "''Salon Bas Lanka''"]) blast
  note inst = trace_records_returned_fetches [of shop "''bringo.ma''" "''3616479540274''"
      "\<lambda>html. str_includes html ''3616479540274''" "?r" "?calls" "''Salon Bas Lanka''" r' calls']
  have "tried ?r = List.map_filter (token_record shop) (pages ?calls)"
    using inst t by blast
  then have a: "[TokenAttempt ''https://bringo.ma/p/123'' True] =
     List.map_filter (token_record shop) [''https://bringo.ma/p/1'', ''https://bringo.ma/p/123'']"
    by (simp del: List.map_filter_simps)
  have b: "tried r' = List.map_filter (title_record shop (cleanName ''Salon Bas Lanka'')) (pages calls')"
    using inst n by blast
  show ?thesis using t a b n by blast
qed

text \<open>
  C4 as stated fails: for the request \<open>?ean=3616479540274\<close> the page of the first
  candidate is requested and the request throws, and the trace, which the 404 answer
  carries, has no record of that candidate. The record of the second candidate holds
  the \<open>ok\<close> flag of its response, which is true, not the result of the token test,
  which is false.
\<close>

theorem unrecorded_attempt_counterexample:
  "worker_fetch shop ean_only =
     (Ret \<lparr>status = 404, body = NoMatchBody [[TokenAttempt ''https://bringo.ma/p/123'' True]]\<rparr>,
      [(ByEan, Search (''https://duckduckgo.com/html/?q='' @
                 uri_component ''site:bringo.ma 3616479540274'')),
       (ByEan, Page ''https://bringo.ma/p/1''), (ByEan, Page ''https://bringo.ma/p/123'')]) \<and>
   net_fetch shop ''https://bringo.ma/p/1'' = None \<and>
   \<not> str_includes product_page ''3616479540274''"
proof -
  have "worker_fetch shop ean_only =
     (Ret \<lparr>status = 404, body = NoMatchBody [[TokenAttempt ''https://bringo.ma/p/123'' True]]\<rparr>,
      [(ByEan, Search (''https://duckduckgo.com/html/?q='' @
                 uri_component ''site:bringo.ma 3616479540274'')),
       (ByEan, Page ''https://bringo.ma/p/1''), (ByEan, Page ''https://bringo.ma/p/123'')])"
    using shop_ean_run
    by (simp add: worker_fetch_def Let_def site_of_def [symmetric] ean_only_params try_ean_def
        try_name_def no_match_def j_def made_by_def)
  then show ?thesis using shop_fetch(1) product_page_ean by simp
qed

section \<open>The name strategy takes the first qualifying candidate\<close>

lemma name_loop_verdict:
  "name_loop env qName cands trace = (r, calls) \<Longrightarrow>
   (case r of
      Hit m t \<Rightarrow>
        (\<exists>earlier later. cands = earlier @ productUrl m # later \<and>
           (\<forall>c\<in>set earlier. \<not> qualifies env qName c)) \<and>
        page_score env qName (productUrl m) = Some (score m) \<and> score m \<ge> 0.6 \<and>
        page_image env (productUrl m) = Some (imageUrl m) \<and> matchedBy m = ''name''
    | Miss t \<Rightarrow> \<forall>c\<in>set cands. \<not> qualifies env qName c)"
proof (induction cands arbitrary: trace r calls)
  case Nil
  then show ?case by auto
next
  case (Cons c cands)
  show ?case
  proof (cases "qualifies env qName c")
    case True
    then have "\<exists>t. r = Hit \<lparr>imageUrl = the (page_image env c), productUrl = c,
        matchedBy = ''name'', score = the (page_score env qName c)\<rparr> t"
      using Cons.prems
      by (auto simp: qualifies_def page_score_def page_image_def Let_def
          split: option.splits outcome.splits if_splits)
    then obtain t where r: "r = Hit \<lparr>imageUrl = the (page_image env c), productUrl = c,
        matchedBy = ''name'', score = the (page_score env qName c)\<rparr> t" by blast
    have "c # cands = [] @ c # cands \<and> (\<forall>c'\<in>set []. \<not> qualifies env qName c')" by simp
    then have "\<exists>earlier later. c # cands = earlier @ c # later \<and>
        (\<forall>c'\<in>set earlier. \<not> qualifies env qName c')" by blast
    then show ?thesis
      using True r by (auto simp: qualifies_def split: option.splits)
  next
    case False
    then obtain trace' calls' where rec: "name_loop env qName cands trace' = (r, calls')"
      using Cons.prems
      by (auto simp: qualifies_def page_score_def page_image_def Let_def
          split: option.splits outcome.splits if_splits prod.splits)
    note ih = Cons.IH [OF rec]
    show ?thesis
    proof (cases r)
      case (Hit m t)
      with ih obtain earlier later where
        e: "cands = earlier @ productUrl m # later"
          "\<forall>c'\<in>set earlier. \<not> qualifies env qName c'"
        by auto
      have "c # cands = (c # earlier) @ productUrl m # later \<and>
          (\<forall>c'\<in>set (c # earlier). \<not> qualifies env qName c')"
        using e False by simp
      then have "\<exists>earlier later. c # cands = earlier @ productUrl m # later \<and>
          (\<forall>c'\<in>set earlier. \<not> qualifies env qName c')" by blast
      then show ?thesis using ih Hit by simp
    next
      case (Miss t)
      then show ?thesis using ih False by simp
    qed
  qed
qed

text \<open>
  C7. Given the ranked candidate list the search returned, the name strategy returns
  a match exactly when some candidate qualifies, that is, its page is fetched, its
  title scores at least 0.6 against the cleaned query and an image is extracted from
  it. The match is then the first qualifying candidate in rank order, with that
  candidate's own score and image: no candidate before it qualifies, and nothing about
  the candidates after it, a higher score included, plays a part.
\<close>

theorem name_first_qualifying:
  assumes "ddgLinks env (''site:'' @ site @ '' '' @ cleanName rawName) = (Ret results, calls)"
  shows "\<exists>r calls'. findByName env site rawName = (Ret r, calls') \<and>
     (case r of
        Hit m t \<Rightarrow>
          (\<exists>earlier later. results = earlier @ productUrl m # later \<and>
             (\<forall>c\<in>set earlier. \<not> qualifies env (cleanName rawName) c)) \<and>
          page_score env (cleanName rawName) (productUrl m) = Some (score m) \<and>
          score m \<ge> 0.6 \<and>
          page_image env (productUrl m) = Some (imageUrl m) \<and> matchedBy m = ''name''
      | Miss t \<Rightarrow> \<forall>c\<in>set results. \<not> qualifies env (cleanName rawName) c)"
proof -
  from assms obtain r calls' where
    f: "findByName env site rawName = (Ret r, calls @ calls')" and
    l: "name_loop env (cleanName rawName) results [] = (r, calls')"
    by (rule findByName_returns)
  show ?thesis using f name_loop_verdict [OF l] by blast
qed

text \<open>In the scenario the first candidate cannot be fetched and does not qualify;
  the second scores 1 and is the match.\<close>

theorem name_first_qualifying_witness:
  "ddgLinks shop (''site:'' @ ''bringo.ma'' @ '' '' @ cleanName ''Salon Bas Lanka'') =
     (Ret [''https://bringo.ma/p/1'', ''https://bringo.ma/p/123''],
      [Search (''https://duckduckgo.com/html/?q='' @
         uri_component (''site:'' @ ''bringo.ma'' @ '' '' @ cleanName ''Salon Bas Lanka''))]) \<and>
   fst (findByName shop ''bringo.ma'' ''Salon Bas Lanka'') =
     Ret (Hit \<lparr>imageUrl = ''https://bringo.ma/img/x.jpg'',
               productUrl = ''https://bringo.ma/p/123'',
               matchedBy = ''name'', score = 1\<rparr>
            [TitleAttempt ''https://bringo.ma/p/123'' ''Salon Bas Lanka'' 1]) \<and>
   qualifies shop (cleanName ''Salon Bas Lanka'') ''https://bringo.ma/p/1'' = False \<and>
   page_score shop (cleanName ''Salon Bas Lanka'') ''https://bringo.ma/p/123'' = Some 1 \<and>
   page_image shop ''https://bringo.ma/p/123'' = Some ''https://bringo.ma/img/x.jpg''"
proof -
  let ?q = "cleanName ''Salon Bas Lanka''"
  let ?m = "\<lparr>imageUrl = ''https://bringo.ma/img/x.jpg'',
       productUrl = ''https://bringo.ma/p/123'', matchedBy = ''name'', score = 1\<rparr>"
  from name_first_qualifying [OF shop_search, of "''bringo.ma''" "''Salon Bas Lanka''"]
  obtain earlier later where
    e: "[''https://bringo.ma/p/1'', ''https://bringo.ma/p/123''] =
          earlier @ ''https://bringo.ma/p/123'' # later"
       "\<forall>c\<in>set earlier. \<not> qualifies shop ?q c" and
    p: "page_score shop ?q ''https://bringo.ma/p/123'' = Some 1"
       "page_image shop ''https://bringo.ma/p/123'' = Some ''https://bringo.ma/img/x.jpg''"
    unfolding shop_name_run by auto
  from e(1) have "earlier = [''https://bringo.ma/p/1'']"
    by (cases earlier) (auto simp: Cons_eq_append_conv)
  then have "qualifies shop ?q ''https://bringo.ma/p/1'' = False"
    using e(2) by simp
  then show ?thesis using p shop_search shop_name_run by simp
qed

section \<open>The dispatcher goes through the strategies in order\<close>

lemma try_name_pipeline:
  "try_name env (site_of request) (param (p_name request)) (p_debug request) trace =
   pipeline env request [ByName] trace"
  by (simp add: try_name_def split: prod.splits outcome.splits)

lemma try_ean_pipeline:
  "try_ean env (site_of request) (param (p_ean request)) (param (p_name request))
     (p_debug request) trace =
   pipeline env request [ByEan, ByName] trace"
  by (simp add: try_ean_def try_name_pipeline del: pipeline.simps(2)
      add: pipeline.simps(2) [of _ _ ByEan] split: prod.splits outcome.splits)

lemma worker_fetch_pipeline:
  "worker_fetch env request =
     (if param (p_subcode request) = [] \<and> param (p_ean request) = [] \<and>
         param (p_name request) = []
      then (Ret (j (ErrorBody ''Provide subcode, ean or name.'') 400), [])
      else pipeline env request [BySubcode, ByEan, ByName] [])"
proof -
  have "worker_fetch env request =
     (if param (p_subcode request) = [] \<and> param (p_ean request) = [] \<and>
         param (p_name request) = []
      then (Ret (j (ErrorBody ''Provide subcode, ean or name.'') 400), [])
      else if param (p_subcode request) \<noteq> [] then
           (case findByToken env (site_of request) (param (p_subcode request))
                 (\<lambda>html. containsProductNumber html (param (p_subcode request))) of
              (Threw, calls) \<Rightarrow> (Threw, made_by BySubcode calls)
            | (Ret r, calls) \<Rightarrow>
                if ok r then (Ret (j (payload r (p_debug request)) 200), made_by BySubcode calls)
                else (let (resp, calls') = pipeline env request [ByEan, ByName] [tried r]
                      in (resp, made_by BySubcode calls @ calls')))
         else pipeline env request [ByEan, ByName] [])"
    unfolding try_ean_pipeline [symmetric] worker_fetch_def Let_def site_of_def [symmetric]
    by simp
  then show ?thesis
    by (simp del: pipeline.simps(2) add: pipeline.simps(2) [of _ _ BySubcode]
        split: prod.splits outcome.splits)
qed

lemma pipeline_calls:
  "snd (pipeline env request (s # ss) trace) =
     (if applicable request s then
        made_by s (snd (invocation env request s)) @
        (case fst (invocation env request s) of
           Threw \<Rightarrow> []
         | Ret r \<Rightarrow> if ok r then [] else snd (pipeline env request ss (trace @ [tried r])))
      else snd (pipeline env request ss trace))"
  by (cases "invocation env request s") (simp split: prod.splits outcome.splits)

lemma made_by_tag: "ev \<in> set (made_by s calls) \<Longrightarrow> fst ev = s"
  by (auto simp: made_by_def)

lemma pipeline_tags:
  "ev \<in> set (snd (pipeline env request ss trace)) \<Longrightarrow>
   fst ev \<in> set ss \<and> applicable request (fst ev)"
proof (induction ss arbitrary: trace)
  case Nil
  then show ?case by simp
next
  case (Cons s ss)
  then show ?case
    by (auto simp: pipeline_calls simp del: pipeline.simps
        split: if_splits prod.splits outcome.splits dest: made_by_tag)
qed

lemma pipeline_sorted:
  "sorted (map priority ss) \<Longrightarrow>
   sorted (map (\<lambda>ev. priority (fst ev)) (snd (pipeline env request ss trace)))"
proof (induction ss arbitrary: trace)
  case Nil
  then show ?case by simp
next
  case (Cons s ss)
  have own: "sorted (map (\<lambda>ev. priority (fst ev)) (made_by s calls))" for calls
    by (induction calls) (auto simp: made_by_def)
  have later: "priority s \<le> priority (fst ev)"
    if "ev \<in> set (snd (pipeline env request ss t))" for ev t
    using pipeline_tags [OF that] Cons.prems by auto
  have rest: "sorted (map (\<lambda>ev. priority (fst ev)) (snd (pipeline env request ss t)))" for t
    using Cons.IH [of t] Cons.prems by simp
  show ?case
    using own rest later
    by (auto simp: pipeline_calls sorted_append simp del: pipeline.simps
        split: prod.splits outcome.splits dest: made_by_tag)
qed

lemma pipeline_stops:
  "succeeds env request s \<Longrightarrow> ev \<in> set (snd (pipeline env request (pre @ s # post) trace))
   \<Longrightarrow> fst ev \<in> set pre \<union> {s}"
proof (induction pre arbitrary: trace)
  case Nil
  then show ?case
    by (auto simp: pipeline_calls succeeds_def simp del: pipeline.simps
        split: prod.splits outcome.splits if_splits dest: made_by_tag)
next
  case (Cons p pre)
  then show ?case
    by (auto simp: pipeline_calls simp del: pipeline.simps
        split: prod.splits outcome.splits if_splits dest: made_by_tag)
qed

lemma earlier_takeWhile: "earlier s = takeWhile (\<lambda>x. x \<noteq> s) [BySubcode, ByEan, ByName]"
  by (cases s) simp_all

lemma reaches_iff:
  "reaches env request s =
     (applicable request s \<and>
      (\<forall>s'\<in>set (takeWhile (\<lambda>x. x \<noteq> s) [BySubcode, ByEan, ByName]).
         applicable request s' \<longrightarrow> misses env request s'))"
  by (simp add: reaches_def earlier_takeWhile list_all_iff del: takeWhile.simps)

lemma calls_of_made_by: "calls_of s (made_by p calls) = (if s = p then calls else [])"
  by (induction calls) (auto simp: calls_of_def made_by_def)

lemma calls_of_Nil: "calls_of s [] = []"
  by (simp add: calls_of_def)

lemma pipeline_answer:
  "fst (pipeline env request (s # ss) trace) =
     (if applicable request s then
        (case fst (invocation env request s) of
           Threw \<Rightarrow> Threw
         | Ret r \<Rightarrow> if ok r then Ret (j (payload r (p_debug request)) 200)
                    else fst (pipeline env request ss (trace @ [tried r])))
      else fst (pipeline env request ss trace))"
  by (cases "invocation env request s") (simp split: prod.splits outcome.splits)

lemma calls_of_append: "calls_of s (a @ b) = calls_of s a @ calls_of s b"
  by (simp add: calls_of_def)

lemma calls_of_none:
  "s \<notin> set ss \<Longrightarrow> calls_of s (snd (pipeline env request ss trace)) = []"
  using pipeline_tags [of _ env request ss trace]
  by (auto simp: calls_of_def filter_empty_conv)

lemma pipeline_calls_exact:
  "distinct ss \<Longrightarrow>
   calls_of s (snd (pipeline env request ss trace)) =
     (if s \<in> set ss \<and> applicable request s \<and>
         (\<forall>s'\<in>set (takeWhile (\<lambda>x. x \<noteq> s) ss). applicable request s' \<longrightarrow> misses env request s')
      then snd (invocation env request s) else [])"
proof (induction ss arbitrary: trace)
  case Nil
  then show ?case by (simp add: calls_of_def)
next
  case (Cons p ss)
  have d: "distinct ss" "p \<notin> set ss" using Cons.prems by simp_all
  note ih = Cons.IH [OF d(1)]
  show ?case
  proof (cases "s = p")
    case True
    have none: "calls_of p (snd (pipeline env request ss t)) = []" for t
      using d(2) by (rule calls_of_none)
    show ?thesis
      using True none
      by (cases "fst (invocation env request p)")
         (simp_all add: pipeline_calls calls_of_made_by calls_of_append calls_of_Nil
            misses_def del: pipeline.simps)
  next
    case False
    show ?thesis
    proof (cases "applicable request p")
      case False
      then show ?thesis
        using \<open>s \<noteq> p\<close> ih by (simp add: pipeline_calls del: pipeline.simps)
    next
      case True
      show ?thesis
      proof (cases "fst (invocation env request p)")
        case Threw
        have ne: "p \<noteq> s" using \<open>s \<noteq> p\<close> by simp
        have mp: "\<not> misses env request p" using Threw by (simp add: misses_def)
        have "calls_of s (snd (pipeline env request (p # ss) trace)) = []"
          using \<open>s \<noteq> p\<close> True Threw
          by (simp add: pipeline_calls calls_of_made_by calls_of_append calls_of_Nil
              del: pipeline.simps)
        then show ?thesis
          using ne True mp by auto
      next
        case (Ret r)
        have ne: "p \<noteq> s" using \<open>s \<noteq> p\<close> by simp
        have mp: "misses env request p = (\<not> ok r)" using Ret by (simp add: misses_def)
        have "calls_of s (snd (pipeline env request (p # ss) trace)) =
            (if ok r then [] else calls_of s (snd (pipeline env request ss (trace @ [tried r]))))"
          using \<open>s \<noteq> p\<close> True Ret
          by (simp add: pipeline_calls calls_of_made_by calls_of_append calls_of_Nil
              del: pipeline.simps)
        then show ?thesis
          using ne \<open>s \<noteq> p\<close> True mp ih [of "trace @ [tried r]"] by auto
      qed
    qed
  qed
qed

lemma pipeline_outcome:
  "distinct ss \<Longrightarrow> s \<in> set ss \<Longrightarrow> applicable request s \<Longrightarrow>
   \<forall>s'\<in>set (takeWhile (\<lambda>x. x \<noteq> s) ss). applicable request s' \<longrightarrow> misses env request s' \<Longrightarrow>
   \<not> misses env request s \<Longrightarrow>
   fst (pipeline env request ss trace) =
     (case fst (invocation env request s) of
        Threw \<Rightarrow> Threw
      | Ret r \<Rightarrow> Ret (j (payload r (p_debug request)) 200))"
proof (induction ss arbitrary: trace)
  case Nil
  then show ?case by simp
next
  case (Cons p ss)
  show ?case
  proof (cases "s = p")
    case True
    then show ?thesis
      using Cons.prems(3,5)
      by (cases "invocation env request p")
         (auto simp: misses_def split: outcome.splits prod.splits)
  next
    case False
    then have ne: "p \<noteq> s" by simp
    have in_ss: "s \<in> set ss" using Cons.prems(2) False by simp
    have d: "distinct ss" using Cons.prems(1) by simp
    have rest: "\<forall>s'\<in>set (takeWhile (\<lambda>x. x \<noteq> s) ss).
        applicable request s' \<longrightarrow> misses env request s'"
      using Cons.prems(4) ne by simp
    note ih = Cons.IH [OF d in_ss Cons.prems(3) rest Cons.prems(5)]
    show ?thesis
    proof (cases "applicable request p")
      case False
      then show ?thesis using ih by simp
    next
      case True
      then have m: "misses env request p" using Cons.prems(4) ne by simp
      then obtain r calls where inv: "invocation env request p = (Ret r, calls)" "\<not> ok r"
        by (cases "invocation env request p")
           (auto simp: misses_def split: outcome.splits)
      show ?thesis
        using True inv ih [of "trace @ [tried r]"]
        by (simp add: pipeline_answer del: pipeline.simps)
    qed
  qed
qed

lemma pipeline_all_miss:
  "\<forall>s\<in>set ss. applicable request s \<longrightarrow> misses env request s \<Longrightarrow>
   pipeline env request ss trace =
     (Ret (no_match (trace @ map (trace_of env request) (filter (applicable request) ss))),
      concat (map (\<lambda>s. made_by s (snd (invocation env request s)))
        (filter (applicable request) ss)))"
proof (induction ss arbitrary: trace)
  case Nil
  then show ?case by simp
next
  case (Cons p ss)
  then have ih: "pipeline env request ss t =
     (Ret (no_match (t @ map (trace_of env request) (filter (applicable request) ss))),
      concat (map (\<lambda>s. made_by s (snd (invocation env request s)))
        (filter (applicable request) ss)))" for t
    by simp
  show ?case
  proof (cases "applicable request p")
    case False
    then show ?thesis using ih by simp
  next
    case True
    then have "misses env request p" using Cons.prems by simp
    then obtain r calls where inv: "invocation env request p = (Ret r, calls)" "\<not> ok r"
      by (cases "invocation env request p")
         (auto simp: misses_def split: outcome.splits)
    moreover have "trace_of env request p = tried r"
      using inv by (simp add: trace_of_def)
    ultimately show ?thesis using True ih by simp
  qed
qed

lemma invocation_calls: "snd (invocation env request s) \<noteq> []"
proof -
  have d: "snd (ddgLinks env q) \<noteq> []" for q
    by (simp add: ddgLinks_def Let_def split: option.splits)
  have t: "snd (findByToken env site token accept) \<noteq> []" for site token accept
    using d [of "''site:'' @ site @ '' '' @ token"]
    by (cases "ddgLinks env (''site:'' @ site @ '' '' @ token)")
       (auto simp: findByToken_def Let_def split: outcome.splits prod.splits)
  have n: "snd (findByName env site rawName) \<noteq> []" for site rawName
    using d [of "''site:'' @ site @ '' '' @ cleanName rawName"]
    by (cases "ddgLinks env (''site:'' @ site @ '' '' @ cleanName rawName)")
       (auto simp: findByName_def Let_def split: outcome.splits prod.splits)
  show ?thesis using t n by (cases s) simp_all
qed

lemma worker_fetch_calls:
  "snd (worker_fetch env request) = [] \<or>
   snd (worker_fetch env request) = snd (pipeline env request [BySubcode, ByEan, ByName] [])"
  by (simp add: worker_fetch_pipeline del: pipeline.simps)

lemma no_identifier_not_applicable:
  "param (p_subcode request) = [] \<and> param (p_ean request) = [] \<and> param (p_name request) = []
   \<Longrightarrow> \<not> applicable request s"
  by (cases s) simp_all

lemma ean_and_name_params:
  "site_of ean_and_name = ''bringo.ma''"
  "param (p_subcode ean_and_name) = []"
  "param (p_ean ean_and_name) = ''3616479540274''"
  "param (p_name ean_and_name) = ''Salon Bas Lanka''"
  "p_debug ean_and_name = False"
  by code_simp+

lemma shop_ean_miss:
  "invocation shop ean_and_name ByEan =
     (Ret (Miss [TokenAttempt ''https://bringo.ma/p/123'' True]),
      [Search (''https://duckduckgo.com/html/?q='' @ uri_component ''site:bringo.ma 3616479540274''),
       Page ''https://bringo.ma/p/1'', Page ''https://bringo.ma/p/123''])"
  by (simp add: ean_and_name_params findByToken_def shop_search shop_fetch product_page_ean)

lemma offline_search:
  "ddgLinks offline q = (Threw, [Search (''https://duckduckgo.com/html/?q='' @ uri_component q)])"
  by (simp add: ddgLinks_def offline_def shop_def)

text \<open>
  C1. The outbound calls of a request come grouped by strategy in the order subcode,
  EAN, name. A strategy is invoked, once, exactly when it applies to the request and
  every applicable strategy before it has returned without a match; its calls are
  then those of that invocation, of which the search is one, and otherwise it makes
  no call. The first invoked strategy that does not return without a match ends the
  pipeline: when it returns a match the answer is that match with status 200, and
  when its search request throws the handler throws. Once a strategy has succeeded
  every call belongs to it or to an earlier strategy. When every applicable strategy
  returns without a match the answer is 404 with the traces of the applicable
  strategies in order (400 when no identifier is given).
\<close>

theorem strategies_tried_in_order:
  "sorted (map (\<lambda>ev. priority (fst ev)) (snd (worker_fetch env request))) \<and>
   calls_of s (snd (worker_fetch env request)) =
     (if reaches env request s then snd (invocation env request s) else []) \<and>
   snd (invocation env request s) \<noteq> [] \<and>
   (reaches env request s \<and> \<not> misses env request s \<longrightarrow>
      fst (worker_fetch env request) =
        (case fst (invocation env request s) of
           Threw \<Rightarrow> Threw
         | Ret r \<Rightarrow> Ret (j (payload r (p_debug request)) 200))) \<and>
   (succeeds env request s \<longrightarrow>
      (\<forall>ev\<in>set (snd (worker_fetch env request)). priority (fst ev) \<le> priority s)) \<and>
   ((\<forall>s'. applicable request s' \<longrightarrow> misses env request s') \<longrightarrow>
      fst (worker_fetch env request) =
        Ret (if param (p_subcode request) = [] \<and> param (p_ean request) = [] \<and>
                param (p_name request) = []
             then j (ErrorBody ''Provide subcode, ean or name.'') 400
             else no_match (map (trace_of env request)
                    (filter (applicable request) [BySubcode, ByEan, ByName]))))"
proof -
  let ?all = "[BySubcode, ByEan, ByName]"
  let ?none = "param (p_subcode request) = [] \<and> param (p_ean request) = [] \<and>
      param (p_name request) = []"
  note wf = worker_fetch_calls [of env request]
  have mem: "s \<in> set ?all" by (cases s) simp_all
  have run: "worker_fetch env request = pipeline env request ?all []" if "\<not> ?none"
    unfolding worker_fetch_pipeline using that by (rule if_not_P)
  have idle: "worker_fetch env request =
      (Ret (j (ErrorBody ''Provide subcode, ean or name.'') 400), [])" if "?none"
    unfolding worker_fetch_pipeline using that by (rule if_P)
  have 1: "sorted (map (\<lambda>ev. priority (fst ev)) (snd (worker_fetch env request)))"
    using wf pipeline_sorted [of ?all env request "[]"] by auto
  have 2: "calls_of s (snd (worker_fetch env request)) =
     (if reaches env request s then snd (invocation env request s) else [])"
  proof (cases "?none")
    case True
    then have "\<not> reaches env request s"
      using no_identifier_not_applicable [of request s] by (simp add: reaches_def)
    then show ?thesis using idle [OF True] by (simp add: calls_of_Nil)
  next
    case False
    show ?thesis
      unfolding run [OF False] reaches_iff
      using pipeline_calls_exact [of ?all s env request "[]"] mem
      by (simp del: pipeline.simps takeWhile.simps)
  qed
  have 3: "snd (invocation env request s) \<noteq> []"
    by (rule invocation_calls)
  have 4: "fst (worker_fetch env request) =
        (case fst (invocation env request s) of
           Threw \<Rightarrow> Threw
         | Ret r \<Rightarrow> Ret (j (payload r (p_debug request)) 200))"
    if r: "reaches env request s" and m: "\<not> misses env request s"
  proof -
    have a: "applicable request s" using r by (simp add: reaches_def)
    then have "\<not> ?none" using no_identifier_not_applicable [of request s] by blast
    then have w: "worker_fetch env request = pipeline env request ?all []" by (rule run)
    have e: "\<forall>s'\<in>set (takeWhile (\<lambda>x. x \<noteq> s) ?all).
        applicable request s' \<longrightarrow> misses env request s'"
      using r unfolding reaches_iff by blast
    show ?thesis
      unfolding w
      by (rule pipeline_outcome [OF _ mem a e m]) simp
  qed
  have 5: "priority (fst ev) \<le> priority s"
    if s: "succeeds env request s" and ev: "ev \<in> set (snd (worker_fetch env request))" for ev
  proof -
    have ev': "ev \<in> set (snd (pipeline env request ?all []))"
      using ev wf by auto
    show ?thesis
    proof (cases s)
      case BySubcode
      then show ?thesis
        using pipeline_stops [OF s, of ev "[]" "[ByEan, ByName]" "[]"] ev' by auto
    next
      case ByEan
      then show ?thesis
        using pipeline_stops [OF s, of ev "[BySubcode]" "[ByName]" "[]"] ev' by auto
    next
      case ByName
      then show ?thesis
        using pipeline_stops [OF s, of ev "[BySubcode, ByEan]" "[]" "[]"] ev' by auto
    qed
  qed
  have 6: "fst (worker_fetch env request) =
        Ret (if ?none then j (ErrorBody ''Provide subcode, ean or name.'') 400
             else no_match (map (trace_of env request) (filter (applicable request) ?all)))"
    if all: "\<forall>s'. applicable request s' \<longrightarrow> misses env request s'"
  proof (cases "?none")
    case True
    then show ?thesis using idle [OF True] by simp
  next
    case False
    have "\<forall>s'\<in>set ?all. applicable request s' \<longrightarrow> misses env request s'"
      using all by blast
    from pipeline_all_miss [OF this, of "[]"]
    have "fst (worker_fetch env request) =
        Ret (no_match (map (trace_of env request) (filter (applicable request) ?all)))"
      unfolding run [OF False] by (simp del: pipeline.simps filter.simps)
    then show ?thesis unfolding if_not_P [OF False] .
  qed
  show ?thesis using 1 2 3 4 5 6 by blast
qed

text \<open>In the scenario, a request with a subcode and a name is answered by the subcode
  strategy, which succeeds, and the name strategy makes no call. A request with an
  EAN found on no page and a name is answered by the name strategy: the EAN strategy
  is invoked first and returns without a match, then the name strategy makes its
  search and page requests and its match is the answer.\<close>

theorem strategies_tried_in_order_witness:
  "calls_of BySubcode (snd (worker_fetch shop subcode_and_name)) =
     [Search (''https://duckduckgo.com/html/?q='' @ uri_component ''site:bringo.ma 694062''),
      Page ''https://bringo.ma/p/1'', Page ''https://bringo.ma/p/123''] \<and>
   calls_of ByName (snd (worker_fetch shop subcode_and_name)) = [] \<and>
   calls_of ByEan (snd (worker_fetch shop ean_and_name)) =
     [Search (''https://duckduckgo.com/html/?q='' @
        uri_component ''site:bringo.ma 3616479540274''),
      Page ''https://bringo.ma/p/1'', Page ''https://bringo.ma/p/123''] \<and>
   calls_of ByName (snd (worker_fetch shop ean_and_name)) =
     [Search (''https://duckduckgo.com/html/?q='' @
        uri_component ''site:bringo.ma Salon Bas Lanka''),
      Page ''https://bringo.ma/p/1'', Page ''https://bringo.ma/p/123''] \<and>
   fst (worker_fetch shop ean_and_name) =
     Ret \<lparr>status = 200, body = MatchBody
        \<lparr>imageUrl = ''https://bringo.ma/img/x.jpg'', productUrl = ''https://bringo.ma/p/123'',
         matchedBy = ''name'', score = 1\<rparr> None\<rparr>"
proof -
  have s1: "reaches shop subcode_and_name BySubcode"
    by (simp add: reaches_def subcode_and_name_params)
  have m1: "\<not> misses shop subcode_and_name BySubcode"
    unfolding misses_def shop_subcode_run by simp
  have s2: "\<not> reaches shop subcode_and_name ByName"
    using m1 by (simp add: reaches_def subcode_and_name_params)
  have e1: "reaches shop ean_and_name ByEan"
    by (simp add: reaches_def ean_and_name_params ean_only_params)
  have m2: "misses shop ean_and_name ByEan"
    unfolding misses_def shop_ean_miss by simp
  have e2: "reaches shop ean_and_name ByName"
    using m2 by (simp add: reaches_def ean_and_name_params ean_only_params)
  have n: "invocation shop ean_and_name ByName =
     (Ret (Hit \<lparr>imageUrl = ''https://bringo.ma/img/x.jpg'',
                productUrl = ''https://bringo.ma/p/123'',
                matchedBy = ''name'', score = 1\<rparr>
             [TitleAttempt ''https://bringo.ma/p/123'' ''Salon Bas Lanka'' 1]),
      [Search (''https://duckduckgo.com/html/?q='' @
         uri_component ''site:bringo.ma Salon Bas Lanka''),
       Page ''https://bringo.ma/p/1'', Page ''https://bringo.ma/p/123''])"
    using shop_name_run by (simp add: ean_and_name_params)
  have e3: "\<not> misses shop ean_and_name ByName"
    unfolding misses_def n by simp
  have a: "calls_of BySubcode (snd (worker_fetch shop subcode_and_name)) =
     [Search (''https://duckduckgo.com/html/?q='' @ uri_component ''site:bringo.ma 694062''),
      Page ''https://bringo.ma/p/1'', Page ''https://bringo.ma/p/123'']"
    using strategies_tried_in_order [of shop subcode_and_name BySubcode] s1
    by (simp add: shop_subcode_run del: invocation.simps)
  have b: "calls_of ByName (snd (worker_fetch shop subcode_and_name)) = []"
    using strategies_tried_in_order [of shop subcode_and_name ByName] s2
    by (simp del: invocation.simps)
  have c: "calls_of ByEan (snd (worker_fetch shop ean_and_name)) =
     [Search (''https://duckduckgo.com/html/?q='' @
        uri_component ''site:bringo.ma 3616479540274''),
      Page ''https://bringo.ma/p/1'', Page ''https://bringo.ma/p/123'']"
    using strategies_tried_in_order [of shop ean_and_name ByEan] e1
    by (simp add: shop_ean_miss del: invocation.simps)
  have d: "calls_of ByName (snd (worker_fetch shop ean_and_name)) =
     [Search (''https://duckduckgo.com/html/?q='' @
        uri_component ''site:bringo.ma Salon Bas Lanka''),
      Page ''https://bringo.ma/p/1'', Page ''https://bringo.ma/p/123'']"
    using strategies_tried_in_order [of shop ean_and_name ByName] e2
    by (simp add: n del: invocation.simps)
  have e: "fst (worker_fetch shop ean_and_name) =
     Ret \<lparr>status = 200, body = MatchBody
        \<lparr>imageUrl = ''https://bringo.ma/img/x.jpg'', productUrl = ''https://bringo.ma/p/123'',
         matchedBy = ''name'', score = 1\<rparr> None\<rparr>"
    using strategies_tried_in_order [of shop ean_and_name ByName] e2 e3
    by (simp add: n j_def ean_and_name_params del: invocation.simps)
  show ?thesis using a b c d e by blast
qed

text \<open>
  C1 as stated fails when a search request throws. With the network down and a
  request carrying a subcode and a name, the search of the subcode strategy throws;
  the subcode strategy has produced no match and the name strategy applies, yet the
  handler throws after that one call and the name strategy is never tried.
\<close>

theorem untried_strategy_counterexample:
  "worker_fetch offline subcode_and_name =
     (Threw, [(BySubcode, Search (''https://duckduckgo.com/html/?q='' @
                 uri_component ''site:bringo.ma 694062''))]) \<and>
   \<not> succeeds offline subcode_and_name BySubcode \<and>
   applicable subcode_and_name ByName \<and>
   calls_of ByName (snd (worker_fetch offline subcode_and_name)) = []"
proof -
  have run: "findByToken offline ''bringo.ma'' ''694062''
      (\<lambda>html. containsProductNumber html ''694062'') =
     (Threw, [Search (''https://duckduckgo.com/html/?q='' @
                uri_component ''site:bringo.ma 694062'')])"
    by (simp add: findByToken_def offline_search)
  have w: "worker_fetch offline subcode_and_name =
     (Threw, [(BySubcode, Search (''https://duckduckgo.com/html/?q='' @
                 uri_component ''site:bringo.ma 694062''))])"
    unfolding worker_fetch_pipeline pipeline.simps(2) [of _ _ BySubcode]
    by (simp add: run subcode_and_name_params made_by_def)
  have s: "\<not> succeeds offline subcode_and_name BySubcode"
    by (simp add: succeeds_def run subcode_and_name_params)
  have n: "applicable subcode_and_name ByName"
    by (simp add: subcode_and_name_params)
  show ?thesis unfolding w using s n by (simp add: calls_of_def)
qed

section \<open>The EAN format gate\<close>

text \<open>
  C5. When the EAN of a request does not match \<open>^\d{12,14}$\<close>, no outbound call is
  made by the EAN strategy, neither a search nor a page request, and the request is
  answered as the remaining strategies answer it: by the subcode and name strategies
  in order when one of them applies, and otherwise by the no-match answer 404 with an
  empty trace (the 400 answer when the EAN is absent altogether). The malformed EAN
  is reported nowhere.
\<close>

theorem invalid_ean_skipped:
  assumes "\<not> ean_format (param (p_ean request))"
  shows "(\<forall>ev\<in>set (snd (worker_fetch env request)). fst ev \<noteq> ByEan) \<and>
     worker_fetch env request =
       (if param (p_subcode request) = [] \<and> param (p_name request) = []
        then (if param (p_ean request) = []
              then (Ret \<lparr>status = 400, body = ErrorBody ''Provide subcode, ean or name.''\<rparr>, [])
              else (Ret \<lparr>status = 404, body = NoMatchBody []\<rparr>, []))
        else pipeline env request [BySubcode, ByName] [])"
proof -
  have skip: "pipeline env request (ByEan # ss) t = pipeline env request ss t" for ss t
    using assms by simp
  have eq: "pipeline env request [BySubcode, ByEan, ByName] [] =
      pipeline env request [BySubcode, ByName] []"
    unfolding pipeline.simps(2) [of env request BySubcode] skip ..
  have none: "pipeline env request [BySubcode, ByName] [] =
      (Ret \<lparr>status = 404, body = NoMatchBody []\<rparr>, [])"
    if "param (p_subcode request) = []" "param (p_name request) = []"
    using that by (simp add: no_match_def j_def)
  have "fst ev \<noteq> ByEan" if "ev \<in> set (snd (worker_fetch env request))" for ev
    using that worker_fetch_calls [of env request]
      pipeline_tags [of ev env request "[BySubcode, ByName]" "[]"]
    unfolding eq by auto
  moreover have "worker_fetch env request =
       (if param (p_subcode request) = [] \<and> param (p_name request) = []
        then (if param (p_ean request) = []
              then (Ret \<lparr>status = 400, body = ErrorBody ''Provide subcode, ean or name.''\<rparr>, [])
              else (Ret \<lparr>status = 404, body = NoMatchBody []\<rparr>, []))
        else pipeline env request [BySubcode, ByName] [])"
    unfolding worker_fetch_pipeline eq using none by (auto simp: j_def)
  ultimately show ?thesis by blast
qed

text \<open>In the scenario the EAN \<open>12345\<close> comes with a name: the name strategy is
  invoked, the EAN strategy is not.\<close>

theorem invalid_ean_skipped_witness:
  "ean_format (param (p_ean bad_ean_and_name)) = False \<and>
   calls_of ByEan (snd (worker_fetch shop bad_ean_and_name)) = [] \<and>
   worker_fetch shop bad_ean_and_name = pipeline shop bad_ean_and_name [BySubcode, ByName] [] \<and>
   calls_of ByName (snd (worker_fetch shop bad_ean_and_name)) =
     [Search (''https://duckduckgo.com/html/?q='' @
        uri_component ''site:bringo.ma Salon Bas Lanka''),
      Page ''https://bringo.ma/p/1'', Page ''https://bringo.ma/p/123'']"
proof -
  have h: "\<not> ean_format (param (p_ean bad_ean_and_name))"
    by (simp add: bad_ean_and_name_params)
  note inst = invalid_ean_skipped [OF h, of shop]
  have w: "worker_fetch shop bad_ean_and_name =
      pipeline shop bad_ean_and_name [BySubcode, ByName] []"
    using inst by (simp add: bad_ean_and_name_params del: pipeline.simps)
  have e: "calls_of ByEan (snd (worker_fetch shop bad_ean_and_name)) = []"
    using inst by (auto simp: calls_of_def filter_empty_conv)
  have site: "site_of bad_ean_and_name = ''bringo.ma''"
    by (simp add: site_of_def bad_ean_and_name_def truthy_def)
  have "calls_of ByName (snd (pipeline shop bad_ean_and_name [BySubcode, ByName] [])) =
     [Search (''https://duckduckgo.com/html/?q='' @
        uri_component ''site:bringo.ma Salon Bas Lanka''),
      Page ''https://bringo.ma/p/1'', Page ''https://bringo.ma/p/123'']"
    by (simp add: pipeline_calls bad_ean_and_name_params site shop_name_run made_by_def
        calls_of_def del: pipeline.simps)
  then show ?thesis using h w e by simp
qed

section \<open>Candidate filtering\<close>

lemma ddgLinks_on_bringo:
  assumes "ddgLinks env query = (Ret cands, calls)" "c \<in> set cands"
  shows "\<exists>u. url_parse env c = Some u \<and> str_includes (hostname u) ''bringo.ma''"
proof -
  from assms have "on_site env c"
    by (auto simp: ddgLinks_def Let_def split: option.splits dest: in_set_takeD)
  then show ?thesis by (auto simp: on_site_def split: option.splits)
qed

text \<open>
  C2, where the worker departs from it. The request names the site \<open>example.com\<close>;
  the candidates returned for its query are the two links of the result page, whose
  host is \<open>bringo.ma\<close> and does not contain \<open>example.com\<close>: the filter of
  \<open>ddgLinks\<close> compares with the fixed string \<open>bringo.ma\<close>, never with the site of the
  request.
\<close>

theorem candidates_kept_for_other_site:
  "ddgLinks shop (''site:'' @ ''example.com'' @ '' '' @ ''694062'') =
     (Ret [''https://bringo.ma/p/1'', ''https://bringo.ma/p/123''],
      [Search (''https://duckduckgo.com/html/?q='' @
         uri_component (''site:'' @ ''example.com'' @ '' '' @ ''694062''))]) \<and>
   map_option hostname (url_parse shop ''https://bringo.ma/p/1'') = Some ''bringo.ma'' \<and>
   map_option hostname (url_parse shop ''https://bringo.ma/p/123'') = Some ''bringo.ma'' \<and>
   \<not> str_includes ''bringo.ma'' ''example.com''"
  using shop_search [of "''site:'' @ ''example.com'' @ '' '' @ ''694062''"] shop_hosts(3)
  by (simp add: shop_parse shop_url_def)

section \<open>Relative image URLs\<close>

lemma extractImage_result:
  assumes "extractImage env candidate html = Ret (Some u)"
  obtains raw where
    "match1 (og_rx ''og:image'') html = Some raw \<or> match1 img_rx html = Some raw"
    "raw \<noteq> []"
    "startsWith raw ''/'' \<Longrightarrow> \<exists>p. url_parse env candidate = Some p \<and> u = origin p @ raw"
    "\<not> startsWith raw ''/'' \<Longrightarrow> u = raw"
  using assms
  by (auto simp: extractImage_def Let_def truthy_def str_of_def
      split: if_splits option.splits)

text \<open>
  C3, where the worker departs from it. The page of the candidate
  \<open>https://bringo.ma/p/123\<close> gives the protocol-relative image URL
  \<open>//cdn.bringo.ma/x.jpg\<close>. It begins with a slash, so the worker puts the
  candidate's origin before it instead of returning it unchanged.
\<close>

theorem protocol_relative_image_rewritten:
  "match1 (og_rx ''og:image'') cdn_page = Some ''//cdn.bringo.ma/x.jpg'' \<and>
   extractImage shop ''https://bringo.ma/p/123'' cdn_page =
     Ret (Some ''https://bringo.ma//cdn.bringo.ma/x.jpg'')"
  by (simp add: extractImage_def Let_def cdn_page_og_image truthy_def str_of_def
      startsWith_def shop_parse shop_url_def)

section \<open>The subcode acceptance test\<close>

lemma str_includes_suffix: "str_includes h n = (\<exists>t. suffix t h \<and> startsWith t n)"
proof (induction h)
  case Nil
  then show ?case by (auto simp: startsWith_def)
next
  case (Cons c h)
  then show ?case by (auto simp: suffix_Cons)
qed

lemma suffix_map_iff: "suffix t' (map f h) = (\<exists>t. suffix t h \<and> t' = map f t)"
  by (auto simp: suffix_def map_eq_append_conv)

lemma rxm_liti:
  "rxm (liti c) st =
     (case rest st of [] \<Rightarrow> []
      | d # t \<Rightarrow> if canonicalize d = canonicalize c
                 then [st\<lparr>prev := Some d, rest := t\<rparr>] else [])"
  by (simp add: liti_def)

lemma rxm_liti_word:
  "(rxm (rx_word liti num) st \<noteq> []) =
     startsWith (map canonicalize (rest st)) (map canonicalize num)"
proof (induction num arbitrary: st)
  case Nil
  then show ?case by (simp add: rx_word_def startsWith_def)
next
  case (Cons c num)
  have w: "rx_word liti (c # num) = Seq (liti c) (rx_word liti num)"
    by (simp add: rx_word_def)
  show ?case
  proof (cases "rest st")
    case Nil
    then show ?thesis unfolding w by (simp add: rxm_liti startsWith_def)
  next
    case (Cons d t)
    show ?thesis
    proof (cases "canonicalize d = canonicalize c")
      case True
      then show ?thesis
        using Cons Cons.IH [of "st\<lparr>prev := Some d, rest := t\<rparr>"]
        unfolding w by (simp add: rxm_liti startsWith_def)
    next
      case False
      then show ?thesis using Cons unfolding w by (simp add: rxm_liti startsWith_def)
    qed
  qed
qed

lemma rx_search_found:
  "rx_search r pv s = Some m \<Longrightarrow>
   \<exists>pv' t. suffix t s \<and> m \<in> set (rxm r \<lparr>prev = pv', rest = t, caps = []\<rparr>)"
proof (induction s arbitrary: pv)
  case Nil
  then have "m \<in> set (rxm r \<lparr>prev = pv, rest = [], caps = []\<rparr>)"
    by (auto split: list.splits)
  then show ?case by blast
next
  case (Cons c s)
  show ?case
  proof (cases "rxm r \<lparr>prev = pv, rest = c # s, caps = []\<rparr>")
    case Nil
    then have "rx_search r (Some c) s = Some m" using Cons.prems by simp
    from Cons.IH [OF this] show ?thesis by (auto simp: suffix_Cons)
  next
    case (Cons m' ms)
    then have "m \<in> set (rxm r \<lparr>prev = pv, rest = c # s, caps = []\<rparr>)"
      using Cons.prems by simp
    then show ?thesis by blast
  qed
qed

lemma rx_search_finds:
  assumes "suffix t s" "\<And>pv'. rxm r \<lparr>prev = pv', rest = t, caps = []\<rparr> \<noteq> []"
  shows "rx_search r pv s \<noteq> None"
  using assms(1)
proof (induction s arbitrary: pv)
  case Nil
  then show ?case using assms(2) [of pv] by (auto split: list.splits)
next
  case (Cons c s)
  show ?case
  proof (cases "t = c # s")
    case True
    then show ?thesis using assms(2) [of pv] by (auto split: list.splits)
  next
    case False
    then have "suffix t s" using Cons.prems by (simp add: suffix_Cons)
    from Cons.IH [OF this] show ?thesis by (auto split: list.splits)
  qed
qed

lemma product_number_at:
  "(rxm (product_number_rx num) st \<noteq> []) =
     (rxm (rx_word liti num) st \<noteq> [] \<or>
      (\<exists>m\<in>set (rxm (Grp 1 label_rx) st). rxm (rx_word liti num) m \<noteq> []))"
  by (auto simp: product_number_rx_def rx_opt_def)

lemma containsProductNumber_iff:
  "containsProductNumber html num =
     (\<exists>t. suffix t html \<and> startsWith (map canonicalize t) (map canonicalize num))"
proof
  assume "containsProductNumber html num"
  then obtain m where "rx_search (product_number_rx num) None html = Some m"
    by (auto simp: containsProductNumber_def rx_test_def rx_exec_def)
  from rx_search_found [OF this] obtain pv' t where
    t: "suffix t html" and
    mm: "m \<in> set (rxm (product_number_rx num) \<lparr>prev = pv', rest = t, caps = []\<rparr>)"
    by blast
  from mm have m: "rxm (product_number_rx num) \<lparr>prev = pv', rest = t, caps = []\<rparr> \<noteq> []"
    by auto
  from m [unfolded product_number_at]
  consider "rxm (rx_word liti num) \<lparr>prev = pv', rest = t, caps = []\<rparr> \<noteq> []"
    | l where "l \<in> set (rxm (Grp 1 label_rx) \<lparr>prev = pv', rest = t, caps = []\<rparr>)"
        "rxm (rx_word liti num) l \<noteq> []"
    by blast
  then show "\<exists>t. suffix t html \<and> startsWith (map canonicalize t) (map canonicalize num)"
  proof cases
    case 1
    then show ?thesis using t by (auto simp: rxm_liti_word)
  next
    case 2
    have "suffix (rest l) t" using rxm_suffix [OF 2(1)] by simp
    then have "suffix (rest l) html" using t by (rule suffix_order.trans)
    then show ?thesis using 2(2) by (auto simp: rxm_liti_word)
  qed
next
  assume "\<exists>t. suffix t html \<and> startsWith (map canonicalize t) (map canonicalize num)"
  then obtain t where t: "suffix t html"
    "startsWith (map canonicalize t) (map canonicalize num)" by blast
  have "rxm (product_number_rx num) \<lparr>prev = pv', rest = t, caps = []\<rparr> \<noteq> []" for pv'
    unfolding product_number_at using t(2) by (simp add: rxm_liti_word)
  from rx_search_finds [OF t(1) this]
  show "containsProductNumber html num"
    by (simp add: containsProductNumber_def rx_test_def rx_exec_def)
qed

lemma canonicalize_digit:
  assumes "is_digit d"
  shows "(canonicalize c = canonicalize d) = (c = d)"
proof -
  have d: "canonicalize d = d"
    using assms by (auto simp: canonicalize_def is_digit_def Let_def)
  have "canonicalize c \<noteq> d" if "canonicalize c \<noteq> c"
  proof
    assume e: "canonicalize c = d"
    from that have r: "(97 \<le> code_unit c \<and> code_unit c \<le> 122) \<or>
        (224 \<le> code_unit c \<and> code_unit c \<le> 254 \<and> code_unit c \<noteq> 247)"
      and "canonicalize c = char_of (code_unit c - 32)"
      by (auto simp: canonicalize_def Let_def split: if_splits)
    then have "code_unit d = (code_unit c - 32) mod 256"
      using e by (simp add: code_unit_def)
    moreover have "code_unit c < 256" by (simp add: code_unit_def)
    ultimately have "code_unit d = code_unit c - 32" by simp
    then show False using assms r by (auto simp: is_digit_def)
  qed
  then have same: "canonicalize c = d \<Longrightarrow> canonicalize c = c" by blast
  show ?thesis
  proof
    assume "canonicalize c = canonicalize d"
    then have "canonicalize c = d" using d by simp
    then show "c = d" using same by simp
  next
    assume "c = d"
    then show "canonicalize c = canonicalize d" by simp
  qed
qed

lemma startsWith_digits:
  assumes "\<forall>d\<in>set num. is_digit d"
  shows "startsWith (map canonicalize t) (map canonicalize num) = startsWith t num"
  using assms
proof (induction num arbitrary: t)
  case Nil
  then show ?case by (simp add: startsWith_def)
next
  case (Cons d num)
  show ?case
  proof (cases t)
    case Nil
    then show ?thesis by (simp add: startsWith_def)
  next
    case (Cons c t')
    have "startsWith (map canonicalize t') (map canonicalize num) = startsWith t' num"
      using Cons.IH Cons.prems by simp
    then show ?thesis
      using Cons Cons.prems canonicalize_digit [of d c]
      by (auto simp: startsWith_def)
  qed
qed

text \<open>
  C10, as the worker has it. The pattern is built with flag \<open>i\<close>, which covers the
  subcode as well as the label: the acceptance test holds for a page body if and only
  if the subcode occurs in the body up to letter case, that is, if the canonical
  (upper-case) form of the subcode is a substring of the canonical form of the body.
  For a subcode of digits only this is plain substring containment, the acceptance test
  of the EAN strategy.
\<close>

theorem subcode_acceptance_ignores_case:
  "containsProductNumber html num =
     str_includes (map canonicalize html) (map canonicalize num) \<and>
   ((\<forall>d\<in>set num. is_digit d) \<longrightarrow> containsProductNumber html num = str_includes html num)"
proof -
  have 1: "containsProductNumber html num =
     str_includes (map canonicalize html) (map canonicalize num)"
    unfolding containsProductNumber_iff str_includes_suffix suffix_map_iff by blast
  have 2: "containsProductNumber html num = str_includes html num"
    if "\<forall>d\<in>set num. is_digit d"
    unfolding containsProductNumber_iff str_includes_suffix
    using startsWith_digits [OF that] by simp
  show ?thesis using 1 2 by blast
qed

lemma digits_694062: "list_all is_digit ''694062''"
  by code_simp

lemma short_body_includes: "str_includes ''No 694062'' ''694062''"
  by code_simp

theorem subcode_acceptance_ignores_case_witness:
  "list_all is_digit ''694062'' \<and> str_includes ''No 694062'' ''694062'' \<and>
   containsProductNumber ''No 694062'' ''694062''"
proof -
  have h: "\<forall>d\<in>set ''694062''. is_digit d"
    using digits_694062 unfolding list_all_iff .
  show ?thesis
    using digits_694062 short_body_includes
      subcode_acceptance_ignores_case [of "''No 694062''" "''694062''"] h
    by blast
qed

text \<open>
  C10 as stated fails: the body \<open>A\<close> is accepted for the subcode \<open>a\<close>, which does
  not occur in it.
\<close>

theorem subcode_acceptance_counterexample:
  "containsProductNumber ''A'' ''a'' \<and> \<not> str_includes ''A'' ''a''"
  by code_simp

section \<open>Digit runs and the Text Normalizer\<close>

lemma space_class [simp]:
  "\<not> is_digit CHR '' ''" "\<not> is_word CHR '' ''"
  by (simp_all add: is_digit_def is_word_def code_unit_def)


lemma digits_ahead_simps [simp]:
  "digits_ahead [] = 0"
  "digits_ahead (c # t) = (if is_digit c then Suc (digits_ahead t) else 0)"
  by (simp_all add: digits_ahead_def)





































































end
